theory Spec2Isabelle
  imports Complex_Main
begin

section \<open>Data model of \<^verbatim>\<open>space-shooter-game.tsx\<close>\<close>

text \<open>
  The component keeps two pieces of state: the React state \<^verbatim>\<open>gameState\<close> (score, level,
  lives and the two flags) and the mutable \<^verbatim>\<open>gameObjectsRef\<close> (player, enemies, bullets,
  stars). Both are threaded explicitly through the functions below.

  JavaScript numbers are modelled by exact numbers: coordinates, sizes and speeds by
  \<open>rat\<close> (enemy bullets start at half-integer abscissae), counters and millisecond
  timestamps by \<open>int\<close>. Every value that player, enemies, bullets and session state take
  is a multiple of one half of small magnitude, on which double arithmetic is exact; the
  stars carry random fractions, and nothing below depends on their arithmetic.

  A call of \<^verbatim>\<open>updateGame\<close> reads the flags of the session state as they are at the call;
  the moment at which React re-renders after \<^verbatim>\<open>setGameState\<close> is not modelled.
\<close>

record star =
  x :: rat
  y :: rat
  speed :: rat
  brightness :: rat

record gameObject =
  x :: rat
  y :: rat
  width :: rat
  height :: rat
  active :: bool

text \<open>\<^verbatim>\<open>lastShot\<close> is not set on the initial player object: it is \<^verbatim>\<open>undefined\<close> until the
  first shot, which is \<open>None\<close> here.\<close>

record player = gameObject +
  speed :: rat
  lastShot :: "int option"

record enemy = gameObject +
  speed :: rat
  direction :: rat

record bullet = gameObject +
  speed :: rat
  isPlayerBullet :: bool

record gameState =
  score :: int
  level :: int
  lives :: int
  gameOver :: bool
  paused :: bool

record gameObjects =
  player :: player
  enemies :: "enemy list"
  bullets :: "bullet list"
  stars :: "star list"

text \<open>What one call of \<^verbatim>\<open>updateGame\<close> reads from its environment: the set of held key
  codes (\<^verbatim>\<open>keysRef.current\<close>), the value of \<^verbatim>\<open>Date.now()\<close>, and the successive results of
  \<^verbatim>\<open>Math.random()\<close> (\<open>rnd k\<close> is the result of the call number \<open>k\<close>, counted from 0).\<close>

record input =
  keys :: "string set"
  now :: int
  rnd :: "nat \<Rightarrow> rat"

abbreviation CANVAS_WIDTH :: rat where "CANVAS_WIDTH \<equiv> 800"
abbreviation CANVAS_HEIGHT :: rat where "CANVAS_HEIGHT \<equiv> 600"
abbreviation ENEMY_ROWS :: nat where "ENEMY_ROWS \<equiv> 5"
abbreviation ENEMY_COLS :: nat where "ENEMY_COLS \<equiv> 10"

text \<open>\<^verbatim>\<open>Math.random()\<close> returns a number in \<open>[0, 1)\<close>; the oracle is read through
  \<open>random\<close>, which keeps it there.\<close>

definition random :: "(nat \<Rightarrow> rat) \<Rightarrow> nat \<Rightarrow> rat" where
  "random r k = (if 0 \<le> r k \<and> r k < 1 then r k else 0)"

section \<open>Initialisation\<close>

definition initialGameState :: gameState where
  "initialGameState = \<lparr>score = 0, level = 1, lives = 3, gameOver = False, paused = False\<rparr>"

definition initialPlayer :: player where
  "initialPlayer = \<lparr>x = 400, y = 550, width = 30, height = 20, active = True,
     player.speed = 5, lastShot = None\<rparr>"

definition initStars :: "(nat \<Rightarrow> rat) \<Rightarrow> star list" where
  "initStars r = map (\<lambda>i.
     \<lparr>star.x = random r (4 * i) * CANVAS_WIDTH,
      star.y = random r (4 * i + 1) * CANVAS_HEIGHT,
      star.speed = random r (4 * i + 2) * 2 + 1 / 2,
      brightness = random r (4 * i + 3) * (4 / 5) + 1 / 5\<rparr>) [0..<100]"

definition newEnemy :: "nat \<Rightarrow> nat \<Rightarrow> enemy" where
  "newEnemy row col = \<lparr>x = 100 + of_nat col * 60, y = 50 + of_nat row * 50,
     width = 25, height = 20, active = True, enemy.speed = 1, direction = 1\<rparr>"

definition initEnemies :: "enemy list" where
  "initEnemies = concat (map (\<lambda>row. map (\<lambda>col. newEnemy row col) [0..<ENEMY_COLS])
     [0..<ENEMY_ROWS])"

text \<open>The state after mounting: the initial values of \<^verbatim>\<open>useState\<close> and \<^verbatim>\<open>useRef\<close>, then the
  effect that calls \<^verbatim>\<open>initStars()\<close> and \<^verbatim>\<open>initEnemies()\<close>.\<close>

definition mount :: "(nat \<Rightarrow> rat) \<Rightarrow> gameState \<times> gameObjects" where
  "mount r = (initialGameState,
     \<lparr>player = initialPlayer, enemies = initEnemies, bullets = [], stars = initStars r\<rparr>)"

section \<open>The steps of \<^verbatim>\<open>updateGame\<close>\<close>

text \<open>Update stars. The second component counts the calls of \<^verbatim>\<open>Math.random()\<close> made so far.\<close>

fun updateStars :: "(nat \<Rightarrow> rat) \<Rightarrow> nat \<Rightarrow> star list \<Rightarrow> star list \<times> nat" where
  "updateStars r k [] = ([], k)"
| "updateStars r k (s # ss) =
     (let s1 = s\<lparr>star.y := star.y s + star.speed s\<rparr> in
      if star.y s1 > CANVAS_HEIGHT
      then (let s2 = s1\<lparr>star.y := 0, star.x := random r k * CANVAS_WIDTH\<rparr>;
                (ss', k') = updateStars r (Suc k) ss
            in (s2 # ss', k'))
      else (let (ss', k') = updateStars r k ss in (s1 # ss', k')))"

text \<open>Handle player movement: four independent tests, in the order of the source.\<close>

definition movePlayer :: "string set \<Rightarrow> player \<Rightarrow> player" where
  "movePlayer ks p =
     (let p1 = (if ''ArrowLeft'' \<in> ks \<and> x p > 0 then p\<lparr>x := x p - player.speed p\<rparr> else p);
          p2 = (if ''ArrowRight'' \<in> ks \<and> x p1 < CANVAS_WIDTH - width p1
                then p1\<lparr>x := x p1 + player.speed p1\<rparr> else p1);
          p3 = (if ''ArrowUp'' \<in> ks \<and> y p2 > CANVAS_HEIGHT / 2
                then p2\<lparr>y := y p2 - player.speed p2\<rparr> else p2);
          p4 = (if ''ArrowDown'' \<in> ks \<and> y p3 < CANVAS_HEIGHT - height p3
                then p3\<lparr>y := y p3 + player.speed p3\<rparr> else p3)
      in p4)"

text \<open>Handle shooting. \<^verbatim>\<open>!player.lastShot\<close> holds when the field is undefined and also when
  it is the number 0; otherwise the difference to \<^verbatim>\<open>Date.now()\<close> decides.\<close>

definition canShoot :: "int option \<Rightarrow> int \<Rightarrow> bool" where
  "canShoot ls t = (case ls of None \<Rightarrow> True | Some v \<Rightarrow> v = 0 \<or> t - v > 200)"

definition playerBullet :: "player \<Rightarrow> bullet" where
  "playerBullet p = \<lparr>x = x p + width p / 2 - 2, y = y p, width = 4, height = 10,
     active = True, bullet.speed = 8, isPlayerBullet = True\<rparr>"

definition handleShooting :: "string set \<Rightarrow> int \<Rightarrow> player \<Rightarrow> bullet list \<Rightarrow> player \<times> bullet list" where
  "handleShooting ks t p bs =
     (if ''Space'' \<in> ks
      then (if canShoot (lastShot p) t
            then (p\<lparr>lastShot := Some t\<rparr>, bs @ [playerBullet p])
            else (p, bs))
      else (p, bs))"

text \<open>Update bullets.\<close>

definition updateBullet :: "bullet \<Rightarrow> bullet" where
  "updateBullet b =
     (if isPlayerBullet b
      then (let b1 = b\<lparr>y := y b - bullet.speed b\<rparr> in
            if y b1 < 0 then b1\<lparr>active := False\<rparr> else b1)
      else (let b1 = b\<lparr>y := y b + bullet.speed b\<rparr> in
            if y b1 > CANVAS_HEIGHT then b1\<lparr>active := False\<rparr> else b1))"

text \<open>Update enemies: the first loop advances every active enemy and raises \<^verbatim>\<open>moveDown\<close>
  when one of them is at a side; the second loop runs when the flag is raised.\<close>

definition moveEnemy :: "enemy \<Rightarrow> enemy" where
  "moveEnemy e = (if \<not> active e then e else e\<lparr>x := x e + enemy.speed e * direction e\<rparr>)"

definition atBoundary :: "enemy \<Rightarrow> bool" where
  "atBoundary e = (active e \<and> (x e \<le> 0 \<or> x e \<ge> CANVAS_WIDTH - width e))"

definition stepDown :: "enemy \<Rightarrow> enemy" where
  "stepDown e = (if active e then e\<lparr>direction := direction e * (- 1), y := y e + 20\<rparr> else e)"

definition moveDown :: "enemy list \<Rightarrow> bool" where
  "moveDown es = list_ex atBoundary (map moveEnemy es)"

definition updateEnemies :: "enemy list \<Rightarrow> enemy list" where
  "updateEnemies es =
     (if moveDown es then map stepDown (map moveEnemy es) else map moveEnemy es)"

text \<open>Enemy shooting. The two calls of \<^verbatim>\<open>Math.random()\<close> are the calls number \<open>k\<close> and
  \<open>k + 1\<close> of the frame.\<close>

definition enemyBullet :: "enemy \<Rightarrow> bullet" where
  "enemyBullet shooter = \<lparr>x = x shooter + width shooter / 2 - 2,
     y = y shooter + height shooter, width = 4, height = 8,
     active = True, bullet.speed = 3, isPlayerBullet = False\<rparr>"

definition enemyShooting :: "(nat \<Rightarrow> rat) \<Rightarrow> nat \<Rightarrow> enemy list \<Rightarrow> bullet list \<Rightarrow> bullet list" where
  "enemyShooting r k es bs =
     (if random r k < 1 / 50
      then (let activeEnemies = filter active es in
            if length activeEnemies > 0
            then (let shooter = activeEnemies !
                        nat \<lfloor>random r (Suc k) * of_nat (length activeEnemies)\<rfloor>
                  in bs @ [enemyBullet shooter])
            else bs)
      else bs)"

text \<open>The bounding-box test, written twice in the source (bullet against enemy, bullet
  against player).\<close>

definition overlaps :: "('a gameObject_scheme) \<Rightarrow> ('b gameObject_scheme) \<Rightarrow> bool" where
  "overlaps b t = (x b < x t + width t \<and> x b + width b > x t \<and>
                   y b < y t + height t \<and> y b + height b > y t)"

text \<open>Collision detection, inner loop: one player bullet against every enemy, in array
  order. The loop has no exit and does not look at \<^verbatim>\<open>bullet.active\<close>.\<close>

fun hitEnemies :: "bullet \<Rightarrow> enemy list \<Rightarrow> gameState \<Rightarrow> bullet \<times> enemy list \<times> gameState" where
  "hitEnemies b [] gs = (b, [], gs)"
| "hitEnemies b (e # es) gs =
     (if active e \<and> overlaps b e
      then (let (b', es', gs') = hitEnemies (b\<lparr>active := False\<rparr>) es
                                   (gs\<lparr>score := score gs + 10\<rparr>)
            in (b', e\<lparr>active := False\<rparr> # es', gs'))
      else (let (b', es', gs') = hitEnemies b es gs in (b', e # es', gs')))"

definition hitPlayer :: "gameState \<Rightarrow> gameState" where
  "hitPlayer prev = (let newLives = lives prev - 1 in
     prev\<lparr>lives := newLives, gameOver := (newLives \<le> 0)\<rparr>)"

text \<open>Collision detection, outer loop over the bullets. The state updaters passed to
  \<^verbatim>\<open>setGameState\<close> are applied in the order of the calls.\<close>

fun collide :: "player \<Rightarrow> bullet list \<Rightarrow> enemy list \<Rightarrow> gameState \<Rightarrow>
    bullet list \<times> enemy list \<times> gameState" where
  "collide p [] es gs = ([], es, gs)"
| "collide p (b # bs) es gs =
     (if \<not> active b
      then (let (bs', es', gs') = collide p bs es gs in (b # bs', es', gs'))
      else if isPlayerBullet b
      then (let (b1, es1, gs1) = hitEnemies b es gs;
                (bs', es', gs') = collide p bs es1 gs1
            in (b1 # bs', es', gs'))
      else if overlaps b p
      then (let (bs', es', gs') = collide p bs es (hitPlayer gs)
            in (b\<lparr>active := False\<rparr> # bs', es', gs'))
      else (let (bs', es', gs') = collide p bs es gs in (b # bs', es', gs')))"

text \<open>Check if enemies reached player.\<close>

definition reachedPlayer :: "player \<Rightarrow> enemy \<Rightarrow> bool" where
  "reachedPlayer p e = (active e \<and> y e + height e \<ge> y p)"

definition lossCheck :: "enemy list \<Rightarrow> player \<Rightarrow> gameState \<Rightarrow> gameState" where
  "lossCheck es p gs = foldl (\<lambda>g e. if reachedPlayer p e then g\<lparr>gameOver := True\<rparr> else g) gs es"

section \<open>\<^verbatim>\<open>updateGame\<close> and \<^verbatim>\<open>handleRestart\<close>\<close>

text \<open>The world after the steps before collision detection: stars, player movement,
  shooting, bullets, enemies, enemy shooting.\<close>

definition advance :: "input \<Rightarrow> gameObjects \<Rightarrow> gameObjects" where
  "advance inp go =
     (let (st, k) = updateStars (rnd inp) 0 (stars go);
          p1 = movePlayer (keys inp) (player go);
          (p2, bs1) = handleShooting (keys inp) (now inp) p1 (bullets go);
          bs2 = map updateBullet bs1;
          es1 = updateEnemies (enemies go);
          bs3 = enemyShooting (rnd inp) k es1 bs2
      in \<lparr>player = p2, enemies = es1, bullets = bs3, stars = st\<rparr>)"

text \<open>The result of collision detection on the advanced world.\<close>

definition collisions :: "input \<Rightarrow> gameState \<times> gameObjects \<Rightarrow>
    bullet list \<times> enemy list \<times> gameState" where
  "collisions inp c = (case c of (gs, go) \<Rightarrow>
     (let w = advance inp go in collide (player w) (bullets w) (enemies w) gs))"

text \<open>The loop that checks whether the enemies reached the player runs over the array
  read at the start of the call, which after a wave clear is the old, fully inactive
  wave.\<close>

definition updateGame :: "input \<Rightarrow> gameState \<times> gameObjects \<Rightarrow> gameState \<times> gameObjects" where
  "updateGame inp c = (case c of (gs, go) \<Rightarrow>
     if gameOver gs \<or> paused gs then (gs, go)
     else (let w = advance inp go;
               (bs, es, gs1) = collisions inp (gs, go);
               waveClear = (length (filter active es) = 0);
               gs2 = (if waveClear then gs1\<lparr>level := level gs1 + 1\<rparr> else gs1);
               gs3 = lossCheck es (player w) gs2
           in (gs3, w\<lparr>enemies := (if waveClear then initEnemies else es),
                      bullets := filter active bs\<rparr>)))"

definition handleRestart :: "string \<Rightarrow> gameState \<times> gameObjects \<Rightarrow> gameState \<times> gameObjects" where
  "handleRestart code c = (case c of (gs, go) \<Rightarrow>
     if code = ''KeyR'' \<and> gameOver gs
     then (initialGameState,
           go\<lparr>player := initialPlayer, bullets := [], enemies := initEnemies\<rparr>)
     else (gs, go))"

text \<open>The events of a session, and the states a session can be in.\<close>

datatype event = Frame input | KeyDown string

fun step :: "event \<Rightarrow> gameState \<times> gameObjects \<Rightarrow> gameState \<times> gameObjects" where
  "step (Frame inp) c = updateGame inp c"
| "step (KeyDown code) c = handleRestart code c"

inductive reachable :: "gameState \<times> gameObjects \<Rightarrow> bool" where
  reach_mount: "reachable (mount r)"
| reach_step: "reachable c \<Longrightarrow> reachable (step ev c)"

section \<open>Auxiliary notions and concrete instances\<close>

text \<open>A frame without held keys in which no enemy shoots.\<close>

definition idle :: input where
  "idle = \<lparr>keys = {}, now = 0, rnd = (\<lambda>k. 1 / 2)\<rparr>"

text \<open>A world whose last enemy is about to be hit by a player bullet.\<close>

definition lastEnemyWorld :: gameObjects where
  "lastEnemyWorld = \<lparr>player = initialPlayer, enemies = [newEnemy 0 0],
     bullets = [\<lparr>x = 110, y = 60, width = 4, height = 10, active = True,
                 bullet.speed = 8, isPlayerBullet = True\<rparr>], stars = []\<rparr>"

text \<open>A session that has ended.\<close>

definition lostSession :: "gameState \<times> gameObjects" where
  "lostSession = (\<lparr>score = 70, level = 2, lives = 0, gameOver = True, paused = False\<rparr>,
     lastEnemyWorld)"

text \<open>The positions the player can take: multiples of its speed 5 within the bounds.\<close>

definition onGrid :: "rat \<Rightarrow> rat \<Rightarrow> rat \<Rightarrow> bool" where
  "onGrid lo hi v = (v / 5 \<in> \<int> \<and> lo \<le> v \<and> v \<le> hi)"

definition playerInv :: "player \<Rightarrow> bool" where
  "playerInv p = (width p = 30 \<and> height p = 20 \<and> player.speed p = 5 \<and>
     onGrid 0 770 (x p) \<and> onGrid 300 580 (y p))"

text \<open>A frame with the left and down keys held.\<close>

definition hardLeft :: input where
  "hardLeft = \<lparr>keys = {''ArrowLeft'', ''ArrowDown''}, now = 0, rnd = (\<lambda>k. 1 / 2)\<rparr>"

text \<open>The fire key alone.\<close>

definition holdFire :: "string set" where
  "holdFire = {''Space''}"

text \<open>The test of the inner loop, and what the inner loop does to an enemy.\<close>

definition hits :: "bullet \<Rightarrow> enemy \<Rightarrow> bool" where
  "hits b e = (active e \<and> overlaps b e)"

definition destroy :: "enemy \<Rightarrow> enemy" where
  "destroy e = e\<lparr>active := False\<rparr>"

definition spend :: "bullet \<Rightarrow> bullet" where
  "spend b = b\<lparr>active := False\<rparr>"

text \<open>An active player bullet of the list hits the enemy.\<close>

definition shotBy :: "bullet list \<Rightarrow> enemy \<Rightarrow> bool" where
  "shotBy bs e = list_ex (\<lambda>b. active b \<and> isPlayerBullet b \<and> hits b e) bs"

definition strikes :: "player \<Rightarrow> bullet \<Rightarrow> bool" where
  "strikes p b = (active b \<and> \<not> isPlayerBullet b \<and> overlaps b p)"

text \<open>What collision detection as a whole does to an enemy.\<close>

definition shoot :: "bullet list \<Rightarrow> enemy \<Rightarrow> enemy" where
  "shoot bs e = (if shotBy bs e then destroy e else e)"

text \<open>Two player bullets in the same column, and two enemies of which the first lies
  across both bullets.\<close>

definition volley :: "bullet list" where
  "volley = [\<lparr>x = 110, y = 52, width = 4, height = 10, active = True,
               bullet.speed = 8, isPlayerBullet = True\<rparr>,
             \<lparr>x = 110, y = 60, width = 4, height = 10, active = True,
               bullet.speed = 8, isPlayerBullet = True\<rparr>]"

definition twoEnemies :: "enemy list" where
  "twoEnemies = [newEnemy 0 0\<lparr>x := 101\<rparr>, newEnemy 0 1\<lparr>x := 161\<rparr>]"

text \<open>The wave of \<^verbatim>\<open>initEnemies\<close> after \<open>n\<close> steps to the right, and the starfield of
  \<open>mount (\<lambda>k. 0)\<close> after \<open>n\<close> frames.\<close>

definition wave :: "nat \<Rightarrow> enemy list" where
  "wave n = map (\<lambda>e. e\<lparr>x := x e + of_nat n\<rparr>) initEnemies"

definition sky :: "nat \<Rightarrow> star list" where
  "sky n = replicate 100 \<lparr>star.x = 0, star.y = of_nat n / 2, star.speed = 1 / 2, brightness = 1 / 5\<rparr>"

text \<open>Frames with the up key held: one in which no enemy shoots, and one in which the
  enemy in row 4, column 5 shoots (the first random number is below 0.02, the second
  selects index 45 of the 50 active enemies).\<close>

definition climb :: input where
  "climb = \<lparr>keys = {''ArrowUp''}, now = 0, rnd = (\<lambda>k. 1 / 2)\<rparr>"

definition climbUnderFire :: input where
  "climbUnderFire = \<lparr>keys = {''ArrowUp''}, now = 0, rnd = (\<lambda>k. if k = 0 then 1 / 100 else 9 / 10)\<rparr>"

text \<open>Running a list of events, and the session in which four enemy bullets are fired
  in the first four frames while the player climbs towards them for 36 frames.\<close>

definition run :: "event list \<Rightarrow> gameState \<times> gameObjects \<Rightarrow> gameState \<times> gameObjects" where
  "run evs c = foldl (\<lambda>c ev. step ev c) c evs"

definition fatalTrace :: "event list" where
  "fatalTrace = replicate 4 (Frame climbUnderFire) @ replicate 32 (Frame climb)"

text \<open>A session with one life left and an enemy bullet just above the player.\<close>

definition lastStand :: "gameState \<times> gameObjects" where
  "lastStand = (\<lparr>score = 120, level = 1, lives = 1, gameOver = False, paused = False\<rparr>,
     \<lparr>player = initialPlayer, enemies = [newEnemy 0 0],
      bullets = [\<lparr>x = 410, y = 545, width = 4, height = 8, active = True,
                  bullet.speed = 3, isPlayerBullet = False\<rparr>], stars = []\<rparr>)"





text \<open>A frame with the fire key held, and the bullet it spawns from the initial player.\<close>

definition fire :: input where
  "fire = \<lparr>keys = holdFire, now = 1000, rnd = (\<lambda>k. 1 / 2)\<rparr>"

definition firstShot :: bullet where
  "firstShot = \<lparr>x = 413, y = 542, width = 4, height = 10, active = True,
     bullet.speed = 8, isPlayerBullet = True\<rparr>"


text \<open>A session in which the player fires in frames 13 and 14, 300 ms apart, and both
  bullets fly up a column that is free of enemies until, in frame 49, the enemy in row 4,
  column 4 moves into it.\<close>

definition fireAgain :: input where
  "fireAgain = \<lparr>keys = holdFire, now = 1300, rnd = (\<lambda>k. 1 / 2)\<rparr>"

definition volleyTrace :: "event list" where
  "volleyTrace = replicate 12 (Frame idle) @ [Frame fire, Frame fireAgain] @ replicate 34 (Frame idle)"

text \<open>A player bullet of that column that cannot hit an enemy of the wave after \<open>m\<close> steps:
  it is still below the wave, or the column lies between two columns of enemies.\<close>

definition inColumn :: "nat \<Rightarrow> bullet \<Rightarrow> bool" where
  "inColumn m b = (isPlayerBullet b \<and> x b = 413 \<and> width b = 4 \<and> height b = 10 \<and>
     (270 \<le> y b \<or> (17 \<le> m \<and> m \<le> 48)))"

text \<open>The two bullets at collision detection in frame 49.\<close>

definition volleyInFlight :: "bullet list" where
  "volleyInFlight = [firstShot\<lparr>y := 254\<rparr>, firstShot\<lparr>y := 262\<rparr>]"

section \<open>Unfolding a frame\<close>

lemmas frame_defs = collisions_def advance_def movePlayer_def handleShooting_def canShoot_def
  playerBullet_def updateBullet_def updateEnemies_def moveDown_def moveEnemy_def atBoundary_def
  stepDown_def enemyShooting_def enemyBullet_def random_def overlaps_def hitPlayer_def Let_def

section \<open>The starfield\<close>

lemma updateStars_speed: "map star.speed (fst (updateStars r k ss)) = map star.speed ss"
  by (induction ss arbitrary: k) (simp_all add: Let_def split_def)

lemma updateStars_brightness: "map brightness (fst (updateStars r k ss)) = map brightness ss"
  by (induction ss arbitrary: k) (simp_all add: Let_def split_def)

lemma stars_advance: "stars (advance inp go) = fst (updateStars (rnd inp) 0 (stars go))"
  by (simp add: advance_def Let_def split_def)

lemma stars_updateGame:
  "stars (snd (updateGame inp (gs, go))) =
     (if gameOver gs \<or> paused gs then stars go else fst (updateStars (rnd inp) 0 (stars go)))"
  by (simp add: updateGame_def Let_def split_def stars_advance)

lemma stars_handleRestart: "stars (snd (handleRestart code (gs, go))) = stars go"
  by (simp add: handleRestart_def)

text \<open>Claim C10. Restart leaves the starfield as it is, for every prior state and every
  key code; and no event of a session generates stars again: after a frame or a key press
  the world holds the same number of stars, each with its speed and brightness (a frame
  only moves a star and wraps it to the top).\<close>

theorem C10_restart_keeps_stars:
  "stars (snd (handleRestart code (gs, go))) = stars go \<and>
   map star.speed (stars (snd (step ev (gs, go)))) = map star.speed (stars go) \<and>
   map brightness (stars (snd (step ev (gs, go)))) = map brightness (stars go)"
  by (cases ev) (simp_all add: stars_handleRestart stars_updateGame updateStars_speed updateStars_brightness)

section \<open>Game over and restart\<close>

text \<open>Claim C9. While the game-over flag or the paused flag is set, \<^verbatim>\<open>updateGame\<close> returns
  the session state and the world unchanged; an event that takes a session out of game
  over is the key press of \<^verbatim>\<open>KeyR\<close>, and that key press does take it out.\<close>

theorem C9_game_over_terminal:
  "(gameOver gs \<or> paused gs \<longrightarrow> updateGame inp (gs, go) = (gs, go)) \<and>
   (gameOver gs \<and> \<not> gameOver (fst (step ev (gs, go))) \<longrightarrow> ev = KeyDown ''KeyR'') \<and>
   (gameOver gs \<longrightarrow> \<not> gameOver (fst (step (KeyDown ''KeyR'') (gs, go))))"
  by (cases ev) (auto simp add: updateGame_def handleRestart_def initialGameState_def)

theorem C9_game_over_terminal_witness:
  "gameOver (fst lostSession) \<and>
   updateGame \<lparr>keys = {''Space'', ''ArrowLeft''}, now = 1000, rnd = (\<lambda>k. 0)\<rparr> lostSession
     = lostSession"
  using C9_game_over_terminal [of "fst lostSession" _ "snd lostSession"]
  by (simp add: lostSession_def)

section \<open>The enemy wave\<close>

lemma length_grid: "length (concat (map (\<lambda>row. map (f row) [0..<n]) [0..<m])) = m * n"
  by (induction m) simp_all

lemma nth_grid:
  "r < m \<Longrightarrow> c < n \<Longrightarrow> concat (map (\<lambda>row. map (f row) [0..<n]) [0..<m]) ! (r * n + c) = f r c"
proof (induction m)
  case 0
  then show ?case by simp
next
  case (Suc m)
  show ?case
  proof (cases "r < m")
    case True
    then have "Suc r \<le> m" by simp
    then have "Suc r * n \<le> m * n" by (rule mult_le_mono1)
    with \<open>c < n\<close> have "r * n + c < m * n" by simp
    with Suc True show ?thesis by (simp add: nth_append length_grid)
  next
    case False
    with Suc.prems have "r = m" by simp
    with Suc.prems show ?thesis by (simp add: nth_append length_grid)
  qed
qed

lemma length_initEnemies: "length initEnemies = 50"
  by (simp add: initEnemies_def length_grid)

lemma initEnemies_nth: "row < 5 \<Longrightarrow> col < 10 \<Longrightarrow> initEnemies ! (row * 10 + col) = newEnemy row col"
  unfolding initEnemies_def by (rule nth_grid)

lemma initEnemies_all_active: "e \<in> set initEnemies \<Longrightarrow> active e"
  by (auto simp add: initEnemies_def newEnemy_def)

text \<open>Claim C7. When game over is set, the key \<^verbatim>\<open>KeyR\<close> puts the session state to score 0,
  level 1, lives 3, both flags false, the player to its initial object at (400, 550), the
  bullets to the empty list and the enemies to the wave of \<^verbatim>\<open>initEnemies\<close>, which is the
  wave of a fresh session and has 50 members; the result depends on the prior state only
  through the stars, which are kept. When game over is not set, or for any other key,
  nothing changes.\<close>

theorem C7_restart:
  "(gameOver gs \<longrightarrow>
      handleRestart ''KeyR'' (gs, go) =
        (\<lparr>score = 0, level = 1, lives = 3, gameOver = False, paused = False\<rparr>,
         \<lparr>player = \<lparr>x = 400, y = 550, width = 30, height = 20, active = True,
                     player.speed = 5, lastShot = None\<rparr>,
          enemies = initEnemies, bullets = [], stars = stars go\<rparr>)) \<and>
   (\<not> gameOver gs \<or> code \<noteq> ''KeyR'' \<longrightarrow> handleRestart code (gs, go) = (gs, go)) \<and>
   enemies (snd (mount r)) = initEnemies \<and> length initEnemies = 50"
  by (simp add: handleRestart_def initialGameState_def initialPlayer_def mount_def length_initEnemies)

theorem C7_restart_witness:
  "gameOver (fst lostSession) \<and>
   handleRestart ''KeyR'' lostSession =
     (\<lparr>score = 0, level = 1, lives = 3, gameOver = False, paused = False\<rparr>,
      \<lparr>player = \<lparr>x = 400, y = 550, width = 30, height = 20, active = True,
                  player.speed = 5, lastShot = None\<rparr>,
       enemies = initEnemies, bullets = [], stars = []\<rparr>)"
  using C7_restart [of "fst lostSession" "snd lostSession"]
  by (simp add: lostSession_def lastEnemyWorld_def)

lemma enemies_advance: "enemies (advance inp go) = updateEnemies (enemies go)"
  by (simp add: advance_def Let_def split_def)

lemma moveDown_iff:
  "moveDown es = (\<exists>e \<in> set es. active e \<and>
      (x e + enemy.speed e * direction e \<le> 0 \<or>
       x e + enemy.speed e * direction e \<ge> CANVAS_WIDTH - width e))"
proof -
  have "atBoundary (moveEnemy e) = (active e \<and>
      (x e + enemy.speed e * direction e \<le> 0 \<or>
       x e + enemy.speed e * direction e \<ge> CANVAS_WIDTH - width e))" for e
    by (simp add: atBoundary_def moveEnemy_def)
  then show ?thesis
    by (simp add: moveDown_def list_ex_iff)
qed

lemma length_updateEnemies: "length (updateEnemies es) = length es"
  by (simp add: updateEnemies_def)

lemma updateEnemies_nth_down:
  "moveDown es \<Longrightarrow> i < length es \<Longrightarrow> updateEnemies es ! i = stepDown (moveEnemy (es ! i))"
  by (simp add: updateEnemies_def)

lemma updateEnemies_nth_level:
  "\<not> moveDown es \<Longrightarrow> i < length es \<Longrightarrow> updateEnemies es ! i = moveEnemy (es ! i)"
  by (simp add: updateEnemies_def)

text \<open>Claim C6. The flag \<^verbatim>\<open>moveDown\<close> is raised exactly when some active enemy, after its
  horizontal advance, is at \<open>x \<le> 0\<close> or at \<open>x \<ge> 800 - width\<close>. The enemy step of a frame
  is \<open>updateEnemies\<close>; it keeps the number of enemies. When the flag is raised, every
  active enemy has its direction negated and its \<open>y\<close> increased by 20; when it is not,
  no enemy changes direction or \<open>y\<close>.\<close>

theorem C6_wave_reversal:
  "moveDown es = (\<exists>e \<in> set es. active e \<and>
      (x e + enemy.speed e * direction e \<le> 0 \<or>
       x e + enemy.speed e * direction e \<ge> 800 - width e)) \<and>
   enemies (advance inp go) = updateEnemies (enemies go) \<and>
   length (updateEnemies es) = length es \<and>
   (\<forall>i < length es.
      (moveDown es \<and> active (es ! i) \<longrightarrow>
         direction (updateEnemies es ! i) = - direction (es ! i) \<and>
         y (updateEnemies es ! i) = y (es ! i) + 20) \<and>
      (\<not> moveDown es \<longrightarrow>
         direction (updateEnemies es ! i) = direction (es ! i) \<and>
         y (updateEnemies es ! i) = y (es ! i)))"
proof (intro conjI allI impI)
  show "moveDown es = (\<exists>e \<in> set es. active e \<and>
      (x e + enemy.speed e * direction e \<le> 0 \<or>
       x e + enemy.speed e * direction e \<ge> 800 - width e))"
    by (rule moveDown_iff)
  show "enemies (advance inp go) = updateEnemies (enemies go)"
    by (rule enemies_advance)
  show "length (updateEnemies es) = length es"
    by (rule length_updateEnemies)
next
  fix i assume "i < length es" and "moveDown es \<and> active (es ! i)"
  then show "direction (updateEnemies es ! i) = - direction (es ! i)"
    by (simp add: updateEnemies_nth_down stepDown_def moveEnemy_def)
next
  fix i assume "i < length es" and "moveDown es \<and> active (es ! i)"
  then show "y (updateEnemies es ! i) = y (es ! i) + 20"
    by (simp add: updateEnemies_nth_down stepDown_def moveEnemy_def)
next
  fix i assume "i < length es" and "\<not> moveDown es"
  then show "direction (updateEnemies es ! i) = direction (es ! i)"
    by (simp add: updateEnemies_nth_level moveEnemy_def)
next
  fix i assume "i < length es" and "\<not> moveDown es"
  then show "y (updateEnemies es ! i) = y (es ! i)"
    by (simp add: updateEnemies_nth_level moveEnemy_def)
qed

theorem C6_wave_reversal_witness:
  "moveDown [newEnemy 0 0\<lparr>x := 774\<rparr>, newEnemy 1 2] \<and>
   direction (updateEnemies [newEnemy 0 0\<lparr>x := 774\<rparr>, newEnemy 1 2] ! 1) = - 1 \<and>
   y (updateEnemies [newEnemy 0 0\<lparr>x := 774\<rparr>, newEnemy 1 2] ! 1) = 120"
  using C6_wave_reversal [of "[newEnemy 0 0\<lparr>x := 774\<rparr>, newEnemy 1 2]"]
  by (simp add: newEnemy_def)

lemma level_hitEnemies: "level (snd (snd (hitEnemies b es gs))) = level gs"
  by (induction es arbitrary: b gs) (simp_all add: split_def Let_def)

lemma level_collide: "level (snd (snd (collide p bs es gs))) = level gs"
  by (induction bs arbitrary: es gs)
     (simp_all add: split_def Let_def level_hitEnemies hitPlayer_def)

lemma lossCheck_eq:
  "lossCheck es p gs = gs\<lparr>gameOver := gameOver gs \<or> (\<exists>e \<in> set es. reachedPlayer p e)\<rparr>"
  unfolding lossCheck_def
  by (induction es arbitrary: gs) auto

text \<open>Claim C4. In a frame that runs (neither game over nor paused) and in which no enemy
  is active after collision detection, the level grows by exactly 1 and the enemies
  become the wave of \<^verbatim>\<open>initEnemies\<close>: 50 enemies, the one of row \<open>row\<close> and column \<open>col\<close> at
  index \<open>row * 10 + col\<close>, placed at \<open>(100 + 60 col, 50 + 50 row)\<close>, 25 by 20, active,
  with speed 1 and direction 1, whatever the previous wave was.\<close>

theorem C4_wave_clear:
  assumes "\<not> gameOver gs" and "\<not> paused gs"
    and "filter active (fst (snd (collisions inp (gs, go)))) = []"
  shows "level (fst (updateGame inp (gs, go))) = level gs + 1 \<and>
         enemies (snd (updateGame inp (gs, go))) = initEnemies \<and>
         length initEnemies = 50 \<and>
         (\<forall>row < 5. \<forall>col < 10. initEnemies ! (row * 10 + col) =
            \<lparr>x = 100 + of_nat col * 60, y = 50 + of_nat row * 50, width = 25, height = 20,
             active = True, enemy.speed = 1, direction = 1\<rparr>)"
proof (intro conjI allI impI)
  have lv: "level (snd (snd (collisions inp (gs, go)))) = level gs"
    by (simp add: collisions_def Let_def level_collide)
  show "level (fst (updateGame inp (gs, go))) = level gs + 1"
    using assms lv by (simp add: updateGame_def Let_def split_def lossCheck_eq)
  show "enemies (snd (updateGame inp (gs, go))) = initEnemies"
    using assms by (simp add: updateGame_def Let_def split_def)
  show "length initEnemies = 50" by (rule length_initEnemies)
next
  fix row col :: nat assume "row < 5" "col < 10"
  then show "initEnemies ! (row * 10 + col) =
            \<lparr>x = 100 + of_nat col * 60, y = 50 + of_nat row * 50, width = 25, height = 20,
             active = True, enemy.speed = 1, direction = 1\<rparr>"
    by (simp add: initEnemies_nth newEnemy_def)
qed

theorem C4_wave_clear_witness:
  "filter active (fst (snd (collisions idle (initialGameState, lastEnemyWorld)))) = [] \<and>
   level (fst (updateGame idle (initialGameState, lastEnemyWorld))) = 2 \<and>
   enemies (snd (updateGame idle (initialGameState, lastEnemyWorld))) ! 12 =
     \<lparr>x = 220, y = 100, width = 25, height = 20, active = True,
      enemy.speed = 1, direction = 1\<rparr>"
proof -
  have h1: "\<not> gameOver initialGameState" and h2: "\<not> paused initialGameState"
    by (simp_all add: initialGameState_def)
  have h3: "filter active (fst (snd (collisions idle (initialGameState, lastEnemyWorld)))) = []"
    by (simp add: frame_defs lastEnemyWorld_def idle_def initialGameState_def
        initialPlayer_def newEnemy_def)
  have lv: "level initialGameState = 1"
    by (simp add: initialGameState_def)
  note wc = C4_wave_clear [OF h1 h2 h3]
  from wc have l: "level (fst (updateGame idle (initialGameState, lastEnemyWorld))) =
      level initialGameState + 1"
    by (rule conjunct1)
  from wc have e: "enemies (snd (updateGame idle (initialGameState, lastEnemyWorld))) = initEnemies"
    by simp
  from wc have "\<forall>row < 5. \<forall>col < 10. initEnemies ! (row * 10 + col) =
       \<lparr>x = 100 + of_nat col * 60, y = 50 + of_nat row * 50, width = 25, height = 20,
        active = True, enemy.speed = 1, direction = 1\<rparr>"
    by simp
  from this [rule_format, of 1 2] have n: "initEnemies ! 12 =
       \<lparr>x = 220, y = 100, width = 25, height = 20,
        active = True, enemy.speed = 1, direction = 1\<rparr>"
    by simp
  from h3 lv l e n show ?thesis by simp
qed

section \<open>The player stays in the playfield\<close>

lemma Ints_less_step: "a \<in> \<int> \<Longrightarrow> b \<in> \<int> \<Longrightarrow> a < b \<Longrightarrow> a + 1 \<le> (b::rat)"
proof -
  assume "a \<in> \<int>" "b \<in> \<int>" "a < b"
  then obtain i j :: int where ij: "a = of_int i" "b = of_int j"
    by (auto elim!: Ints_cases)
  with \<open>a < b\<close> have "i < j" by simp
  then have "i + 1 \<le> j" by simp
  then have "(of_int (i + 1) :: rat) \<le> of_int j" by (simp only: of_int_le_iff)
  with ij show ?thesis by simp
qed

lemma onGrid_down:
  assumes "onGrid lo hi v" and "lo / 5 \<in> \<int>"
  shows "onGrid lo hi (if held \<and> v > lo then v - 5 else v)"
proof (cases "held \<and> v > lo")
  case True
  from assms have v: "v / 5 \<in> \<int>" "v \<le> hi" by (simp_all add: onGrid_def)
  from True have "lo / 5 < v / 5" by simp
  with assms(2) v(1) have "lo / 5 + 1 \<le> v / 5" by (intro Ints_less_step)
  then have "lo \<le> v - 5" by simp
  moreover have "(v - 5) / 5 \<in> \<int>" using v(1) by (simp add: diff_divide_distrib)
  ultimately show ?thesis using True v(2) by (simp add: onGrid_def)
next
  case False
  with assms show ?thesis by auto
qed

lemma onGrid_up:
  assumes "onGrid lo hi v" and "hi / 5 \<in> \<int>"
  shows "onGrid lo hi (if held \<and> v < hi then v + 5 else v)"
proof (cases "held \<and> v < hi")
  case True
  from assms have v: "v / 5 \<in> \<int>" "lo \<le> v" by (simp_all add: onGrid_def)
  from True have "v / 5 < hi / 5" by simp
  with assms(2) v(1) have "v / 5 + 1 \<le> hi / 5" by (intro Ints_less_step)
  then have "v + 5 \<le> hi" by simp
  moreover have "(v + 5) / 5 \<in> \<int>" using v(1) by (simp add: add_divide_distrib)
  ultimately show ?thesis using True v(2) by (simp add: onGrid_def)
next
  case False
  with assms show ?thesis by auto
qed

lemma left_inv:
  assumes "playerInv p"
  shows "playerInv (if held \<and> x p > 0 then p\<lparr>x := x p - player.speed p\<rparr> else p)"
proof -
  from assms have "onGrid 0 770 (x p)" by (simp add: playerInv_def)
  then have "onGrid 0 770 (if held \<and> x p > 0 then x p - 5 else x p)"
    by (rule onGrid_down) simp
  with assms show ?thesis by (cases "held") (auto simp add: playerInv_def split: if_splits)
qed

lemma right_inv:
  assumes "playerInv p"
  shows "playerInv (if held \<and> x p < CANVAS_WIDTH - width p
                    then p\<lparr>x := x p + player.speed p\<rparr> else p)"
proof -
  from assms have "onGrid 0 770 (x p)" by (simp add: playerInv_def)
  then have "onGrid 0 770 (if held \<and> x p < 770 then x p + 5 else x p)"
    by (rule onGrid_up) simp
  with assms show ?thesis by (cases "held") (auto simp add: playerInv_def split: if_splits)
qed

lemma up_inv:
  assumes "playerInv p"
  shows "playerInv (if held \<and> y p > CANVAS_HEIGHT / 2
                    then p\<lparr>y := y p - player.speed p\<rparr> else p)"
proof -
  from assms have "onGrid 300 580 (y p)" by (simp add: playerInv_def)
  then have "onGrid 300 580 (if held \<and> y p > 300 then y p - 5 else y p)"
    by (rule onGrid_down) simp
  with assms show ?thesis by (cases "held") (auto simp add: playerInv_def split: if_splits)
qed

lemma down_inv:
  assumes "playerInv p"
  shows "playerInv (if held \<and> y p < CANVAS_HEIGHT - height p
                    then p\<lparr>y := y p + player.speed p\<rparr> else p)"
proof -
  from assms have "onGrid 300 580 (y p)" by (simp add: playerInv_def)
  then have "onGrid 300 580 (if held \<and> y p < 580 then y p + 5 else y p)"
    by (rule onGrid_up) simp
  with assms show ?thesis by (cases "held") (auto simp add: playerInv_def split: if_splits)
qed

lemma movePlayer_inv: "playerInv p \<Longrightarrow> playerInv (movePlayer ks p)"
  unfolding movePlayer_def Let_def
  by (intro down_inv up_inv right_inv left_inv)

lemma player_advance:
  "player (advance inp go) =
     fst (handleShooting (keys inp) (now inp) (movePlayer (keys inp) (player go)) (bullets go))"
  by (simp add: advance_def Let_def split_def)

lemma player_updateGame:
  "player (snd (updateGame inp (gs, go))) =
     (if gameOver gs \<or> paused gs then player go else player (advance inp go))"
  by (simp add: updateGame_def Let_def split_def)

lemma handleShooting_inv: "playerInv p \<Longrightarrow> playerInv (fst (handleShooting ks t p bs))"
  by (simp add: handleShooting_def playerInv_def)

lemma initialPlayer_inv: "playerInv initialPlayer"
  by (simp add: playerInv_def initialPlayer_def onGrid_def Ints_def)

lemma step_playerInv: "playerInv (player (snd c)) \<Longrightarrow> playerInv (player (snd (step ev c)))"
proof (cases ev)
  case (Frame inp)
  assume "playerInv (player (snd c))"
  then show ?thesis
    by (cases c) (simp add: Frame player_updateGame player_advance handleShooting_inv movePlayer_inv)
next
  case (KeyDown code)
  assume "playerInv (player (snd c))"
  then show ?thesis
    by (cases c) (simp add: KeyDown handleRestart_def initialPlayer_inv)
qed

lemma reachable_playerInv: "reachable c \<Longrightarrow> playerInv (player (snd c))"
  by (induction rule: reachable.induct) (simp_all add: mount_def initialPlayer_inv step_playerInv)

text \<open>Claim C2. In every state of a session (from the mounted state, with the player at
  (400, 550), through any sequence of frames with any held keys, clock and random values,
  and any key presses), the player's \<open>x\<close> is within \<open>[0, 800 - 30]\<close> and its \<open>y\<close> within
  \<open>[300, 600 - 20]\<close>.\<close>

theorem C2_player_in_bounds:
  assumes "reachable c"
  shows "0 \<le> x (player (snd c)) \<and> x (player (snd c)) \<le> 800 - 30 \<and>
         300 \<le> y (player (snd c)) \<and> y (player (snd c)) \<le> 600 - 20"
  using reachable_playerInv [OF assms] by (simp add: playerInv_def onGrid_def)

theorem C2_player_in_bounds_witness:
  "reachable (step (Frame hardLeft) (mount (\<lambda>k. 0))) \<and>
   x (player (snd (step (Frame hardLeft) (mount (\<lambda>k. 0))))) = 395 \<and>
   y (player (snd (step (Frame hardLeft) (mount (\<lambda>k. 0))))) = 555 \<and>
   0 \<le> x (player (snd (step (Frame hardLeft) (mount (\<lambda>k. 0))))) \<and>
   y (player (snd (step (Frame hardLeft) (mount (\<lambda>k. 0))))) \<le> 580"
proof -
  have r: "reachable (step (Frame hardLeft) (mount (\<lambda>k. 0)))"
    by (intro reachable.intros)
  have p: "player (snd (step (Frame hardLeft) (mount (\<lambda>k. 0)))) =
      initialPlayer\<lparr>x := 395, y := 555\<rparr>"
    by (simp add: mount_def player_updateGame player_advance initialGameState_def hardLeft_def
        movePlayer_def handleShooting_def initialPlayer_def)
  from C2_player_in_bounds [OF r] r p show ?thesis by simp
qed

section \<open>Firing\<close>


lemma isPlayerBullet_updateBullet: "isPlayerBullet (updateBullet b) = isPlayerBullet b"
  by (simp add: updateBullet_def Let_def)








text \<open>With a last shot recorded at clock value 0, the next attempt fires whatever the
  clock says.\<close>

lemma shot_at_epoch:
  "handleShooting holdFire 100 (initialPlayer\<lparr>lastShot := Some 0\<rparr>) [] =
     (initialPlayer\<lparr>lastShot := Some 100\<rparr>, [playerBullet initialPlayer])"
  by (simp add: handleShooting_def canShoot_def holdFire_def playerBullet_def)

section \<open>Collision detection in closed form\<close>

lemma hits_spend [simp]: "hits (spend b) e = hits b e"
  by (simp add: hits_def spend_def overlaps_def)

lemma hits_destroy [simp]: "\<not> hits b (destroy e)"
  by (simp add: hits_def destroy_def)

lemma spend_spend [simp]: "spend (spend b) = spend b"
  by (simp add: spend_def)

lemma hitEnemies_hit:
  "hits b e \<Longrightarrow> hitEnemies b (e # es) gs =
     (case hitEnemies (spend b) es (gs\<lparr>score := score gs + 10\<rparr>) of
        (b', es', gs') \<Rightarrow> (b', destroy e # es', gs'))"
  by (simp add: hits_def spend_def destroy_def)

lemma hitEnemies_miss:
  "\<not> hits b e \<Longrightarrow> hitEnemies b (e # es) gs =
     (case hitEnemies b es gs of (b', es', gs') \<Rightarrow> (b', e # es', gs'))"
  by (auto simp add: hits_def)

lemma hitEnemies_eq:
  "hitEnemies b es gs =
     (if list_ex (hits b) es then spend b else b,
      map (\<lambda>e. if hits b e then destroy e else e) es,
      gs\<lparr>score := score gs + 10 * int (length (filter (hits b) es))\<rparr>)"
proof (induction es arbitrary: b gs)
  case Nil
  show ?case by simp
next
  case (Cons e es)
  show ?case
  proof (cases "hits b e")
    case True
    then show ?thesis
      by (simp add: hitEnemies_hit Cons.IH algebra_simps del: hitEnemies.simps)
  next
    case False
    then show ?thesis
      by (simp add: hitEnemies_miss Cons.IH del: hitEnemies.simps)
  qed
qed

lemma shotBy_Nil [simp]: "\<not> shotBy [] e"
  by (simp add: shotBy_def)

lemma shoot_Nil [simp]: "shoot [] e = e"
  by (simp add: shoot_def)

lemma shotBy_destroy [simp]: "\<not> shotBy bs (destroy e)"
  by (simp add: shotBy_def list_ex_iff)

lemma shotBy_Cons:
  "shotBy (b # bs) e = ((active b \<and> isPlayerBullet b \<and> hits b e) \<or> shotBy bs e)"
  by (simp add: shotBy_def)

lemma shotBy_skip: "\<not> (active b \<and> isPlayerBullet b) \<Longrightarrow> shotBy (b # bs) = shotBy bs"
  by (auto simp add: shotBy_Cons fun_eq_iff)

lemma shoot_skip: "\<not> (active b \<and> isPlayerBullet b) \<Longrightarrow> shoot (b # bs) = shoot bs"
  by (auto simp add: shoot_def shotBy_Cons fun_eq_iff)

lemma shoot_Cons:
  "active b \<Longrightarrow> isPlayerBullet b \<Longrightarrow>
   shoot (b # bs) e = shoot bs (if hits b e then destroy e else e)"
  by (simp add: shoot_def shotBy_Cons)

lemma collide_inactive:
  "\<not> active b \<Longrightarrow> collide p (b # bs) es gs =
     (case collide p bs es gs of (bs', es', gs') \<Rightarrow> (b # bs', es', gs'))"
  by simp

lemma collide_player:
  "active b \<Longrightarrow> isPlayerBullet b \<Longrightarrow> collide p (b # bs) es gs =
     (case collide p bs (map (\<lambda>e. if hits b e then destroy e else e) es)
             (gs\<lparr>score := score gs + 10 * int (length (filter (hits b) es))\<rparr>) of
        (bs', es', gs') \<Rightarrow> ((if list_ex (hits b) es then spend b else b) # bs', es', gs'))"
  by (simp add: hitEnemies_eq)

lemma collide_strike:
  "strikes p b \<Longrightarrow> collide p (b # bs) es gs =
     (case collide p bs es (hitPlayer gs) of (bs', es', gs') \<Rightarrow> (spend b # bs', es', gs'))"
  by (simp add: strikes_def spend_def)

lemma collide_pass:
  "\<not> isPlayerBullet b \<Longrightarrow> \<not> strikes p b \<Longrightarrow> collide p (b # bs) es gs =
     (case collide p bs es gs of (bs', es', gs') \<Rightarrow> (b # bs', es', gs'))"
  by (simp add: strikes_def)

lemma collide_cases:
  fixes b :: bullet and p :: player
  obtains (inactive) "\<not> active b"
  | (player) "active b" "isPlayerBullet b"
  | (strike) "strikes p b"
  | (pass) "active b" "\<not> isPlayerBullet b" "\<not> strikes p b"
  by (auto simp add: strikes_def)

lemma collide_enemies: "fst (snd (collide p bs es gs)) = map (shoot bs) es"
proof (induction bs arbitrary: es gs)
  case Nil
  show ?case by (simp add: fun_eq_iff map_idI)
next
  case (Cons b bs)
  show ?case
  proof (cases rule: collide_cases [where b = b and p = p])
    case inactive
    then show ?thesis
      by (simp add: collide_inactive split_def Cons.IH shoot_skip del: collide.simps)
  next
    case player
    then show ?thesis
      by (simp add: collide_player split_def Cons.IH shoot_Cons del: collide.simps)
  next
    case strike
    then have "\<not> (active b \<and> isPlayerBullet b)" by (simp add: strikes_def)
    with strike show ?thesis
      by (simp add: collide_strike split_def Cons.IH shoot_skip del: collide.simps)
  next
    case pass
    then show ?thesis
      by (simp add: collide_pass split_def Cons.IH shoot_skip del: collide.simps)
  qed
qed

lemma length_collide_bullets: "length (fst (collide p bs es gs)) = length bs"
proof (induction bs arbitrary: es gs)
  case Nil
  show ?case by simp
next
  case (Cons b bs)
  show ?case
    by (cases rule: collide_cases [where b = b and p = p])
       (simp_all add: collide_inactive collide_player collide_strike collide_pass split_def
          Cons.IH del: collide.simps)
qed

lemma collide_append:
  "collide p (bs @ cs) es gs =
     (case collide p bs es gs of (bs', es1, gs1) \<Rightarrow>
        case collide p cs es1 gs1 of (cs', es2, gs2) \<Rightarrow> (bs' @ cs', es2, gs2))"
proof (induction bs arbitrary: es gs)
  case Nil
  show ?case by simp
next
  case (Cons b bs)
  show ?case
    by (cases rule: collide_cases [where b = b and p = p])
       (simp_all add: collide_inactive collide_player collide_strike collide_pass split_def
          Cons.IH del: collide.simps)
qed


lemma score_hitPlayer [simp]: "score (hitPlayer gs) = score gs"
  by (simp add: hitPlayer_def Let_def)

lemma length_filter_or:
  "length (filter P xs) + length (filter (\<lambda>x. \<not> P x \<and> Q x) xs) =
   length (filter (\<lambda>x. P x \<or> Q x) xs)"
  by (induction xs) auto

lemma shotBy_after_hit:
  "shotBy bs (if hits b e then destroy e else e) = (\<not> hits b e \<and> shotBy bs e)"
  by simp

lemma collide_score:
  "score (snd (snd (collide p bs es gs))) = score gs + 10 * int (length (filter (shotBy bs) es))"
proof (induction bs arbitrary: es gs)
  case Nil
  show ?case by simp
next
  case (Cons b bs)
  show ?case
  proof (cases rule: collide_cases [where b = b and p = p])
    case inactive
    then show ?thesis
      by (simp add: collide_inactive split_def Cons.IH shotBy_Cons del: collide.simps)
  next
    case player
    have "length (filter (shotBy bs) (map (\<lambda>e. if hits b e then destroy e else e) es)) =
        length (filter (\<lambda>e. \<not> hits b e \<and> shotBy bs e) es)"
      by (simp only: filter_map length_map comp_def shotBy_after_hit)
    moreover have "length (filter (hits b) es) +
        length (filter (\<lambda>e. \<not> hits b e \<and> shotBy bs e) es) =
        length (filter (\<lambda>e. hits b e \<or> shotBy bs e) es)"
      by (rule length_filter_or)
    ultimately have "int (length (filter (hits b) es)) +
        int (length (filter (shotBy bs) (map (\<lambda>e. if hits b e then destroy e else e) es))) =
        int (length (filter (\<lambda>e. hits b e \<or> shotBy bs e) es))"
      by simp
    with player show ?thesis
      by (simp add: collide_player split_def Cons.IH shotBy_Cons del: collide.simps)
  next
    case strike
    then have "\<not> (active b \<and> isPlayerBullet b)" by (simp add: strikes_def)
    with strike show ?thesis
      by (simp add: collide_strike split_def Cons.IH shotBy_skip del: collide.simps)
  next
    case pass
    then show ?thesis
      by (simp add: collide_pass split_def Cons.IH shotBy_Cons del: collide.simps)
  qed
qed

lemma collide_lives:
  "lives (snd (snd (collide p bs es gs))) = lives gs - int (length (filter (strikes p) bs))"
proof (induction bs arbitrary: es gs)
  case Nil
  show ?case by simp
next
  case (Cons b bs)
  show ?case
  proof (cases rule: collide_cases [where b = b and p = p])
    case inactive
    then have "\<not> strikes p b" by (simp add: strikes_def)
    with inactive show ?thesis
      by (simp add: collide_inactive split_def Cons.IH del: collide.simps)
  next
    case player
    then have "\<not> strikes p b" by (simp add: strikes_def)
    with player show ?thesis
      by (simp add: collide_player split_def Cons.IH del: collide.simps)
  next
    case strike
    then show ?thesis
      by (simp add: collide_strike split_def Cons.IH hitPlayer_def Let_def del: collide.simps)
  next
    case pass
    then show ?thesis
      by (simp add: collide_pass split_def Cons.IH del: collide.simps)
  qed
qed

lemma collide_gameOver:
  "gameOver (snd (snd (collide p bs es gs))) =
     (if filter (strikes p) bs = [] then gameOver gs
      else lives (snd (snd (collide p bs es gs))) \<le> 0)"
proof (induction bs arbitrary: es gs)
  case Nil
  show ?case by simp
next
  case (Cons b bs)
  show ?case
  proof (cases rule: collide_cases [where b = b and p = p])
    case inactive
    then have "\<not> strikes p b" by (simp add: strikes_def)
    with inactive show ?thesis
      by (simp add: collide_inactive split_def Cons.IH del: collide.simps)
  next
    case player
    then have "\<not> strikes p b" by (simp add: strikes_def)
    with player show ?thesis
      by (simp add: collide_player split_def Cons.IH del: collide.simps)
  next
    case strike
    then show ?thesis
      by (simp add: collide_strike split_def Cons.IH collide_lives hitPlayer_def Let_def
          del: collide.simps)
  next
    case pass
    then show ?thesis
      by (simp add: collide_pass split_def Cons.IH del: collide.simps)
  qed
qed

lemma paused_collide: "paused (snd (snd (collide p bs es gs))) = paused gs"
proof (induction bs arbitrary: es gs)
  case Nil
  show ?case by simp
next
  case (Cons b bs)
  show ?case
    by (cases rule: collide_cases [where b = b and p = p])
       (simp_all add: collide_inactive collide_player collide_strike collide_pass split_def
          Cons.IH hitPlayer_def Let_def del: collide.simps)
qed

lemma collide_nth_bullet:
  assumes "k < length bs"
  shows "fst (collide p bs es gs) ! k =
     (if active (bs ! k) \<and> isPlayerBullet (bs ! k)
      then (if list_ex (hits (bs ! k)) (map (shoot (take k bs)) es) then spend (bs ! k) else bs ! k)
      else if strikes p (bs ! k) then spend (bs ! k) else bs ! k)"
proof -
  define b where "b = bs ! k"
  define pre where "pre = take k bs"
  define post where "post = drop (Suc k) bs"
  from assms have bs: "bs = pre @ b # post"
    by (simp add: b_def pre_def post_def id_take_nth_drop)
  from assms have lp: "length (fst (collide p pre es gs)) = k"
    by (simp add: length_collide_bullets pre_def)
  obtain pre' es1 gs1 where c1: "collide p pre es gs = (pre', es1, gs1)"
    by (cases "collide p pre es gs") auto
  with lp have lp': "length pre' = k" by simp
  from c1 have es1: "es1 = map (shoot pre) es"
    using collide_enemies [of p pre es gs] by simp
  have "fst (collide p bs es gs) ! k = fst (collide p (b # post) es1 gs1) ! 0"
    by (simp add: bs collide_append c1 split_def nth_append lp' del: collide.simps)
  also have "\<dots> = (if active b \<and> isPlayerBullet b
      then (if list_ex (hits b) es1 then spend b else b)
      else if strikes p b then spend b else b)"
    by (cases rule: collide_cases [where b = b and p = p])
       (simp_all add: collide_inactive collide_player collide_strike collide_pass split_def
          strikes_def del: collide.simps)
  finally show ?thesis
    by (simp add: es1 b_def pre_def)
qed


lemma shotBy_iff:
  "shotBy bs e = (active e \<and> (\<exists>b \<in> set bs. active b \<and> isPlayerBullet b \<and> overlaps b e))"
  by (auto simp add: shotBy_def list_ex_iff hits_def)

lemma active_shoot: "active (shoot bs e) = (active e \<and> \<not> shotBy bs e)"
  by (simp add: shoot_def destroy_def)

lemma length_filter_split:
  "length (filter (\<lambda>x. P x \<and> Q x) xs) + length (filter (\<lambda>x. P x \<and> \<not> Q x) xs) =
   length (filter P xs)"
  by (induction xs) auto

lemma shot_count:
  "int (length (filter (shotBy bs) es)) =
     int (length (filter active es)) - int (length (filter active (map (shoot bs) es)))"
proof -
  have "filter (shotBy bs) es = filter (\<lambda>e. active e \<and> shotBy bs e) es"
    by (rule filter_cong) (auto simp add: shotBy_iff)
  moreover have "length (filter active (map (shoot bs) es)) =
      length (filter (\<lambda>e. active e \<and> \<not> shotBy bs e) es)"
    by (simp add: filter_map comp_def active_shoot)
  moreover have "length (filter (\<lambda>e. active e \<and> shotBy bs e) es) +
      length (filter (\<lambda>e. active e \<and> \<not> shotBy bs e) es) = length (filter active es)"
    by (rule length_filter_split)
  ultimately show ?thesis by simp
qed

lemma enemy_destroyed:
  assumes "i < length es" and "k < length bs"
    and "active (bs ! k)" and "isPlayerBullet (bs ! k)"
    and "active (es ! i)" and "overlaps (bs ! k) (es ! i)"
  shows "\<not> active (map (shoot bs) es ! i)"
proof -
  from assms have "shotBy bs (es ! i)"
    unfolding shotBy_iff using nth_mem by blast
  with assms(1) show ?thesis by (simp add: active_shoot)
qed

lemma first_bullet_spent:
  assumes "i < length es" and "k < length bs"
    and "active (bs ! k)" and "isPlayerBullet (bs ! k)"
    and "active (es ! i)" and "overlaps (bs ! k) (es ! i)"
    and first: "\<forall>j<k. \<not> (active (bs ! j) \<and> isPlayerBullet (bs ! j) \<and> overlaps (bs ! j) (es ! i))"
  shows "\<not> active (fst (collide p bs es gs) ! k)"
proof -
  have "\<not> shotBy (take k bs) (es ! i)"
  proof
    assume "shotBy (take k bs) (es ! i)"
    then obtain b where b: "b \<in> set (take k bs)" "active b" "isPlayerBullet b" "overlaps b (es ! i)"
      by (auto simp add: shotBy_iff)
    from b(1) obtain j where "j < length (take k bs)" "take k bs ! j = b"
      by (auto simp add: in_set_conv_nth)
    with assms(2) have "j < k" "bs ! j = b" by simp_all
    with first b show False by blast
  qed
  then have "shoot (take k bs) (es ! i) = es ! i" by (simp add: shoot_def)
  with assms(1) have "es ! i \<in> set (map (shoot (take k bs)) es)"
    by (metis length_map nth_map nth_mem)
  moreover from assms have "hits (bs ! k) (es ! i)" by (simp add: hits_def)
  ultimately have "list_ex (hits (bs ! k)) (map (shoot (take k bs)) es)"
    unfolding list_ex_iff by blast
  with assms show ?thesis
    by (simp add: collide_nth_bullet spend_def)
qed

lemma bullet_untouched:
  assumes "k < length bs"
    and "\<not> (isPlayerBullet (bs ! k) \<and> (\<exists>e \<in> set es. active e \<and> overlaps (bs ! k) e))"
    and "\<not> (\<not> isPlayerBullet (bs ! k) \<and> overlaps (bs ! k) p)"
  shows "fst (collide p bs es gs) ! k = bs ! k"
proof (cases "isPlayerBullet (bs ! k)")
  case True
  with assms(2) have none: "\<forall>e \<in> set es. \<not> (active e \<and> overlaps (bs ! k) e)" by blast
  have "\<not> list_ex (hits (bs ! k)) (map (shoot (take k bs)) es)"
  proof
    assume "list_ex (hits (bs ! k)) (map (shoot (take k bs)) es)"
    then obtain e where e: "e \<in> set es" "hits (bs ! k) (shoot (take k bs) e)"
      by (auto simp add: list_ex_iff)
    then have "shoot (take k bs) e = e"
      by (cases "shotBy (take k bs) e") (simp_all add: shoot_def)
    with e none show False by (simp add: hits_def)
  qed
  with assms(1) True show ?thesis by (simp add: collide_nth_bullet strikes_def)
next
  case False
  with assms(3) have "\<not> strikes p (bs ! k)" by (simp add: strikes_def)
  with assms(1) False show ?thesis by (simp add: collide_nth_bullet)
qed

lemma enemy_untouched:
  assumes "i < length es"
    and "\<not> (\<exists>b \<in> set bs. active b \<and> isPlayerBullet b \<and> overlaps b (es ! i))"
  shows "map (shoot bs) es ! i = es ! i"
proof -
  from assms(2) have "\<not> shotBy bs (es ! i)" by (auto simp add: shotBy_iff)
  with assms(1) show ?thesis by (simp add: shoot_def)
qed

lemma lives_untouched:
  assumes "\<not> (\<exists>b \<in> set bs. active b \<and> \<not> isPlayerBullet b \<and> overlaps b p)"
  shows "lives (snd (snd (collide p bs es gs))) = lives gs \<and>
         gameOver (snd (snd (collide p bs es gs))) = gameOver gs"
proof -
  from assms have "filter (strikes p) bs = []"
    by (auto simp add: filter_empty_conv strikes_def)
  then show ?thesis by (simp add: collide_lives collide_gameOver)
qed


text \<open>Claim C5, as the code has it. Collision detection keeps the lengths of both arrays.
  An active enemy that an active player bullet overlaps when collision detection starts
  becomes inactive; the bullet becomes inactive too when no earlier bullet of the array
  overlaps that enemy (an enemy is destroyed once, by the first bullet that reaches it in
  array order: the test reads \<^verbatim>\<open>enemy.active\<close>). The score grows by exactly 10 for each enemy
  that became inactive. A bullet that overlaps no target of its kind, and an enemy that no
  active player bullet overlaps, are left as they are; without an enemy bullet on the
  player, lives and game over are left as they are; level and paused always are.\<close>

theorem C5_collision_resolution:
  assumes "collide p bs es gs = (bs', es', gs')"
  shows "length bs' = length bs \<and> length es' = length es \<and>
    (\<forall>i<length es. \<forall>k<length bs.
        active (bs ! k) \<and> isPlayerBullet (bs ! k) \<and> active (es ! i) \<and>
        overlaps (bs ! k) (es ! i) \<longrightarrow>
          \<not> active (es' ! i) \<and>
          ((\<forall>j<k. \<not> (active (bs ! j) \<and> isPlayerBullet (bs ! j) \<and> overlaps (bs ! j) (es ! i)))
             \<longrightarrow> \<not> active (bs' ! k))) \<and>
    score gs' = score gs + 10 * (int (length (filter active es)) - int (length (filter active es'))) \<and>
    (\<forall>k<length bs.
        \<not> (isPlayerBullet (bs ! k) \<and> (\<exists>e \<in> set es. active e \<and> overlaps (bs ! k) e)) \<and>
        \<not> (\<not> isPlayerBullet (bs ! k) \<and> overlaps (bs ! k) p) \<longrightarrow> bs' ! k = bs ! k) \<and>
    (\<forall>i<length es.
        \<not> (\<exists>b \<in> set bs. active b \<and> isPlayerBullet b \<and> overlaps b (es ! i)) \<longrightarrow>
          es' ! i = es ! i) \<and>
    (\<not> (\<exists>b \<in> set bs. active b \<and> \<not> isPlayerBullet b \<and> overlaps b p) \<longrightarrow>
        lives gs' = lives gs \<and> gameOver gs' = gameOver gs) \<and>
    level gs' = level gs \<and> paused gs' = paused gs"
proof -
  from assms have bs': "bs' = fst (collide p bs es gs)"
    and gs': "gs' = snd (snd (collide p bs es gs))" by simp_all
  from assms have es': "es' = map (shoot bs) es"
    using collide_enemies [of p bs es gs] by simp
  have 1: "length bs' = length bs" by (simp add: bs' length_collide_bullets)
  have 2: "length es' = length es" by (simp add: es')
  have 3: "\<forall>i<length es. \<forall>k<length bs.
        active (bs ! k) \<and> isPlayerBullet (bs ! k) \<and> active (es ! i) \<and>
        overlaps (bs ! k) (es ! i) \<longrightarrow>
          \<not> active (es' ! i) \<and>
          ((\<forall>j<k. \<not> (active (bs ! j) \<and> isPlayerBullet (bs ! j) \<and> overlaps (bs ! j) (es ! i)))
             \<longrightarrow> \<not> active (bs' ! k))"
    unfolding es' bs' by (intro allI impI conjI; elim conjE) (rule enemy_destroyed first_bullet_spent; assumption)+
  have 4: "score gs' = score gs +
      10 * (int (length (filter active es)) - int (length (filter active es')))"
    unfolding es' gs' by (simp only: collide_score shot_count)
  have 5: "\<forall>k<length bs.
        \<not> (isPlayerBullet (bs ! k) \<and> (\<exists>e \<in> set es. active e \<and> overlaps (bs ! k) e)) \<and>
        \<not> (\<not> isPlayerBullet (bs ! k) \<and> overlaps (bs ! k) p) \<longrightarrow> bs' ! k = bs ! k"
    unfolding bs' by (intro allI impI; elim conjE) (rule bullet_untouched; assumption)
  have 6: "\<forall>i<length es.
        \<not> (\<exists>b \<in> set bs. active b \<and> isPlayerBullet b \<and> overlaps b (es ! i)) \<longrightarrow>
          es' ! i = es ! i"
    unfolding es' by (intro allI impI) (rule enemy_untouched; assumption)
  have 7: "\<not> (\<exists>b \<in> set bs. active b \<and> \<not> isPlayerBullet b \<and> overlaps b p) \<longrightarrow>
        lives gs' = lives gs \<and> gameOver gs' = gameOver gs"
    unfolding gs' by (intro impI) (rule lives_untouched; assumption)
  have 8: "level gs' = level gs" by (simp add: gs' level_collide)
  have 9: "paused gs' = paused gs" by (simp add: gs' paused_collide)
  from 1 2 3 4 5 6 7 8 9 show ?thesis by (intro conjI)
qed


lemma collide_volley:
  "collide initialPlayer volley twoEnemies initialGameState =
     ([(volley ! 0)\<lparr>active := False\<rparr>, volley ! 1],
      [(twoEnemies ! 0)\<lparr>active := False\<rparr>, twoEnemies ! 1],
      initialGameState\<lparr>score := 10\<rparr>)"
  by (simp add: volley_def twoEnemies_def newEnemy_def overlaps_def initialGameState_def)

text \<open>Two active player bullets overlap the same active enemy: the enemy is destroyed by the
  first, the second stays active, and the score grows by 10, not by 10 for each pair.\<close>

theorem C5_second_bullet_survives:
  "active (volley ! 1) \<and> isPlayerBullet (volley ! 1) \<and>
   active (twoEnemies ! 0) \<and> overlaps (volley ! 1) (twoEnemies ! 0) \<and>
   active (volley ! 0) \<and> isPlayerBullet (volley ! 0) \<and> overlaps (volley ! 0) (twoEnemies ! 0) \<and>
   active (fst (collide initialPlayer volley twoEnemies initialGameState) ! 1) \<and>
   score (snd (snd (collide initialPlayer volley twoEnemies initialGameState))) =
     score initialGameState + 10"
  unfolding collide_volley
  by (simp add: volley_def twoEnemies_def newEnemy_def overlaps_def initialGameState_def)

theorem C5_collision_resolution_witness:
  "\<not> active (fst (snd (collide initialPlayer volley twoEnemies initialGameState)) ! 0) \<and>
   \<not> active (fst (collide initialPlayer volley twoEnemies initialGameState) ! 0) \<and>
   fst (snd (collide initialPlayer volley twoEnemies initialGameState)) ! 1 = twoEnemies ! 1 \<and>
   score (snd (snd (collide initialPlayer volley twoEnemies initialGameState))) = 10"
proof -
  note th = C5_collision_resolution [OF collide_volley]
  have g: "active (volley ! 0) \<and> isPlayerBullet (volley ! 0) \<and> active (twoEnemies ! 0) \<and>
      overlaps (volley ! 0) (twoEnemies ! 0)"
    by (simp add: volley_def twoEnemies_def newEnemy_def overlaps_def)
  have l: "(0::nat) < length twoEnemies" "(0::nat) < length volley" "(1::nat) < length twoEnemies"
    by (simp_all add: volley_def twoEnemies_def)
  from th have "\<forall>i<length twoEnemies. \<forall>k<length volley.
        active (volley ! k) \<and> isPlayerBullet (volley ! k) \<and> active (twoEnemies ! i) \<and>
        overlaps (volley ! k) (twoEnemies ! i) \<longrightarrow>
          \<not> active ([(twoEnemies ! 0)\<lparr>active := False\<rparr>, twoEnemies ! 1] ! i) \<and>
          ((\<forall>j<k. \<not> (active (volley ! j) \<and> isPlayerBullet (volley ! j) \<and>
                overlaps (volley ! j) (twoEnemies ! i)))
             \<longrightarrow> \<not> active ([(volley ! 0)\<lparr>active := False\<rparr>, volley ! 1] ! k))"
    by blast
  from this [rule_format, OF l(1) l(2), OF g]
  have a: "\<not> active ([(twoEnemies ! 0)\<lparr>active := False\<rparr>, twoEnemies ! 1] ! 0)"
    and b: "\<not> active ([(volley ! 0)\<lparr>active := False\<rparr>, volley ! 1] ! 0)"
    by simp_all
  from th have "score (initialGameState\<lparr>score := 10\<rparr>) = score initialGameState +
      10 * (int (length (filter active twoEnemies)) -
            int (length (filter active [(twoEnemies ! 0)\<lparr>active := False\<rparr>, twoEnemies ! 1])))"
    by blast
  then have c: "score (initialGameState\<lparr>score := 10\<rparr>) = 10"
    by simp
  from th have "\<forall>i<length twoEnemies.
        \<not> (\<exists>b \<in> set volley. active b \<and> isPlayerBullet b \<and> overlaps b (twoEnemies ! i)) \<longrightarrow>
          [(twoEnemies ! 0)\<lparr>active := False\<rparr>, twoEnemies ! 1] ! i = twoEnemies ! i"
    by blast
  from this [rule_format, OF l(3)]
  have d: "[(twoEnemies ! 0)\<lparr>active := False\<rparr>, twoEnemies ! 1] ! 1 = twoEnemies ! 1"
    by simp
  from a b c d show ?thesis unfolding collide_volley by simp
qed

section \<open>Lives and game over\<close>

lemma lives_lossCheck [simp]: "lives (lossCheck es p gs) = lives gs"
  by (simp add: lossCheck_eq)

lemma gameOver_lossCheck: "gameOver gs \<Longrightarrow> gameOver (lossCheck es p gs)"
  by (simp add: lossCheck_eq)

lemma lives_updateGame:
  "\<not> gameOver gs \<Longrightarrow> \<not> paused gs \<Longrightarrow>
   lives (fst (updateGame inp (gs, go))) =
     lives gs - int (length (filter (strikes (player (advance inp go))) (bullets (advance inp go))))"
  by (simp add: updateGame_def collisions_def Let_def split_def collide_lives)

lemma gameOver_updateGame:
  assumes "lives (fst (updateGame inp (gs, go))) < lives gs"
    and "lives (fst (updateGame inp (gs, go))) \<le> 0"
  shows "gameOver (fst (updateGame inp (gs, go)))"
proof (cases "gameOver gs \<or> paused gs")
  case True
  with assms(1) show ?thesis by (simp add: updateGame_def)
next
  case False
  define w where "w = advance inp go"
  define r where "r = collide (player w) (bullets w) (enemies w) gs"
  from False have l: "lives (fst (updateGame inp (gs, go))) = lives (snd (snd r))"
    by (simp add: updateGame_def collisions_def Let_def split_def r_def w_def)
  with assms(1) have "filter (strikes (player w)) (bullets w) \<noteq> []"
    by (auto simp add: r_def collide_lives)
  with assms(2) l have "gameOver (snd (snd r))"
    by (simp add: r_def collide_gameOver)
  with False show ?thesis
    by (simp add: updateGame_def collisions_def Let_def split_def r_def w_def gameOver_lossCheck)
qed

lemma lives_le_updateGame: "lives (fst (updateGame inp (gs, go))) \<le> lives gs"
proof (cases "gameOver gs \<or> paused gs")
  case True
  then show ?thesis by (simp add: updateGame_def)
next
  case False
  then show ?thesis by (simp add: lives_updateGame)
qed

lemma step_livesInv:
  assumes "lives (fst c) \<le> 3 \<and> (lives (fst c) \<le> 0 \<longrightarrow> gameOver (fst c))"
  shows "lives (fst (step ev c)) \<le> 3 \<and> (lives (fst (step ev c)) \<le> 0 \<longrightarrow> gameOver (fst (step ev c)))"
proof (cases ev)
  case (KeyDown code)
  with assms show ?thesis
    by (cases c) (simp add: handleRestart_def initialGameState_def)
next
  case (Frame inp)
  obtain gs go where c: "c = (gs, go)" by (cases c)
  show ?thesis
  proof (cases "gameOver gs \<or> paused gs")
    case True
    with assms show ?thesis by (simp add: Frame c updateGame_def)
  next
    case False
    with assms c have pos: "0 < lives gs" by auto
    have le: "lives (fst (updateGame inp (gs, go))) \<le> lives gs" by (rule lives_le_updateGame)
    have "gameOver (fst (updateGame inp (gs, go)))" if "lives (fst (updateGame inp (gs, go))) \<le> 0"
      using that pos by (intro gameOver_updateGame) simp_all
    with le assms show ?thesis by (simp add: Frame c)
  qed
qed

lemma reachable_livesInv:
  "reachable c \<Longrightarrow> lives (fst c) \<le> 3 \<and> (lives (fst c) \<le> 0 \<longrightarrow> gameOver (fst c))"
proof (induction rule: reachable.induct)
  case (reach_mount r)
  show ?case by (simp add: mount_def initialGameState_def)
next
  case (reach_step c ev)
  then show ?case by (intro step_livesInv)
qed

text \<open>Claim C3, as the code has it. A running frame takes one life for every active enemy
  bullet that overlaps the player at collision detection. A frame that lowers the lives
  to 0 or below sets game over in that frame. In every state of a session the lives are
  at most 3, and lives of 0 or less come with game over. Nothing keeps the lives from
  going below 0: \<^verbatim>\<open>hitPlayer\<close> tests \<^verbatim>\<open>newLives <= 0\<close> and stores \<^verbatim>\<open>newLives\<close> as it is.\<close>

theorem C3_lives_and_game_over:
  "(\<not> gameOver gs \<and> \<not> paused gs \<longrightarrow>
      lives (fst (updateGame inp (gs, go))) =
        lives gs - int (length (filter (strikes (player (advance inp go)))
                                       (bullets (advance inp go))))) \<and>
   (lives (fst (updateGame inp (gs, go))) < lives gs \<and>
    lives (fst (updateGame inp (gs, go))) \<le> 0 \<longrightarrow>
      gameOver (fst (updateGame inp (gs, go)))) \<and>
   (reachable c \<longrightarrow> lives (fst c) \<le> 3 \<and> (lives (fst c) \<le> 0 \<longrightarrow> gameOver (fst c)))"
  using lives_updateGame gameOver_updateGame reachable_livesInv by blast

lemma lives_lastStand: "lives (fst (updateGame idle lastStand)) = 0"
  by (simp add: lastStand_def lives_updateGame strikes_def idle_def frame_defs initialPlayer_def
      newEnemy_def)

theorem C3_lives_and_game_over_witness:
  "lives (fst lastStand) = 1 \<and> lives (fst (updateGame idle lastStand)) = 0 \<and>
   gameOver (fst (updateGame idle lastStand))"
proof -
  have l: "lives (fst lastStand) = 1" by (simp add: lastStand_def)
  have "lives (fst (updateGame idle (fst lastStand, snd lastStand))) < lives (fst lastStand) \<and>
      lives (fst (updateGame idle (fst lastStand, snd lastStand))) \<le> 0"
    by (simp add: lives_lastStand l)
  with C3_lives_and_game_over [of "fst lastStand" idle "snd lastStand"]
  have "gameOver (fst (updateGame idle (fst lastStand, snd lastStand)))" by blast
  with l show ?thesis by (simp add: lives_lastStand)
qed


section \<open>A session that ends with negative lives\<close>

lemma run_Nil: "run [] c = c" by (simp add: run_def)
lemma run_Cons: "run (ev # evs) c = run evs (step ev c)" by (simp add: run_def)

lemma reachable_run: "reachable c \<Longrightarrow> reachable (run evs c)"
  by (induction evs arbitrary: c) (simp_all add: run_Nil run_Cons reachable.intros)

lemma initEnemies_facts:
  assumes "e \<in> set initEnemies"
  shows "active e" "width e = 25" "height e = 20" "enemy.speed e = 1" "direction e = 1"
    "100 \<le> x e" "x e \<le> 640" "50 \<le> y e" "y e \<le> 250"
proof -
  from assms obtain r c where rc: "r < 5" "c < 10" "e = newEnemy r c"
    by (auto simp add: initEnemies_def)
  then have "r \<le> 4" "c \<le> 9" by simp_all
  then have "(of_nat r :: rat) \<le> of_nat 4" "(of_nat c :: rat) \<le> of_nat 9"
    by (simp_all only: of_nat_le_iff)
  then have "(of_nat r :: rat) \<le> 4" "(of_nat c :: rat) \<le> 9" by simp_all
  with rc show "active e" "width e = 25" "height e = 20" "enemy.speed e = 1" "direction e = 1"
    "100 \<le> x e" "x e \<le> 640" "50 \<le> y e" "y e \<le> 250"
    by (simp_all add: newEnemy_def)
qed

lemma wave_0: "wave 0 = initEnemies"
  by (simp add: wave_def)

lemma length_wave: "length (wave n) = 50"
  by (simp add: wave_def length_initEnemies)

lemma active_wave: "filter active (wave n) = wave n"
  by (simp add: wave_def filter_map comp_def initEnemies_facts filter_True)

lemma wave_45: "wave n ! 45 = \<lparr>x = 400 + of_nat n, y = 250, width = 25, height = 20,
    active = True, enemy.speed = 1, direction = 1\<rparr>"
proof -
  have "initEnemies ! (4 * 10 + 5) = newEnemy 4 5" by (rule initEnemies_nth) simp_all
  then show ?thesis by (simp add: wave_def length_initEnemies newEnemy_def)
qed

lemma wave_step: "n < 134 \<Longrightarrow> updateEnemies (wave n) = wave (Suc n)"
proof -
  assume n: "n < 134"
  then have "(of_nat n :: rat) < of_nat 134" by (simp only: of_nat_less_iff)
  then have n': "(of_nat n :: rat) < 134" by simp
  have "\<not> (active e \<and> (x e + enemy.speed e * direction e \<le> 0 \<or>
      x e + enemy.speed e * direction e \<ge> CANVAS_WIDTH - width e))" if "e \<in> set (wave n)" for e
  proof -
    from that obtain e0 where e0: "e0 \<in> set initEnemies" "e = e0\<lparr>x := x e0 + of_nat n\<rparr>"
      by (auto simp add: wave_def)
    from initEnemies_facts [OF e0(1)] n' show ?thesis by (simp add: e0(2))
  qed
  then have "\<not> moveDown (wave n)"
    unfolding moveDown_iff by blast
  moreover have "map moveEnemy (wave n) = wave (Suc n)"
    by (simp add: wave_def moveEnemy_def initEnemies_facts algebra_simps)
  ultimately show ?thesis by (simp add: updateEnemies_def)
qed


lemma updateStars_replicate:
  "star.y s + star.speed s \<le> CANVAS_HEIGHT \<Longrightarrow>
   updateStars r k (replicate m s) = (replicate m (s\<lparr>star.y := star.y s + star.speed s\<rparr>), k)"
  by (induction m) (simp_all add: Let_def)

lemma sky_step: "n < 1199 \<Longrightarrow> updateStars r k (sky n) = (sky (Suc n), k)"
proof -
  assume "n < 1199"
  then have "(of_nat n :: rat) < of_nat 1199" by (simp only: of_nat_less_iff)
  then have "(of_nat n :: rat) / 2 + 1 / 2 \<le> 600" by simp
  then show ?thesis
    by (simp add: sky_def updateStars_replicate add_divide_distrib)
qed

lemma mount_0:
  "mount (\<lambda>k. 0) = (initialGameState,
     \<lparr>player = initialPlayer, enemies = wave 0, bullets = [], stars = sky 0\<rparr>)"
  by (simp add: mount_def wave_0 sky_def initStars_def random_def map_replicate_const)

lemma shoot_enemy_bullets: "list_all (\<lambda>b. \<not> isPlayerBullet b) bs \<Longrightarrow> shoot bs e = e"
  by (auto simp add: shoot_def shotBy_iff list_all_iff)

lemma enemyShooting_wave:
  "enemyShooting r k (wave n) bs =
     (if random r k < 1 / 50
      then bs @ [enemyBullet (wave n ! nat \<lfloor>random r (Suc k) * 50\<rfloor>)] else bs)"
proof -
  have "wave n \<noteq> []" using length_wave [of n] by auto
  then show ?thesis
    by (simp add: enemyShooting_def active_wave length_wave Let_def)
qed

lemma list_all_enemyShooting:
  "list_all (\<lambda>b. \<not> isPlayerBullet b) bs \<Longrightarrow>
   list_all (\<lambda>b. \<not> isPlayerBullet b) (enemyShooting r k es (map updateBullet bs))"
  by (simp add: enemyShooting_def enemyBullet_def Let_def list_all_iff isPlayerBullet_updateBullet)

lemma lossCheck_wave: "270 < y p \<Longrightarrow> lossCheck (wave n) p gs = gs"
proof -
  assume p: "270 < y p"
  have "\<not> reachedPlayer p e" if "e \<in> set (wave n)" for e
  proof -
    from that obtain e0 where e0: "e0 \<in> set initEnemies" "e = e0\<lparr>x := x e0 + of_nat n\<rparr>"
      by (auto simp add: wave_def)
    from initEnemies_facts [OF e0(1)] p show ?thesis by (simp add: e0(2) reachedPlayer_def)
  qed
  then show ?thesis by (simp add: lossCheck_eq)
qed

lemma climb_frame:
  assumes "\<not> gameOver gs" and "\<not> paused gs" and "keys inp = {''ArrowUp''}"
    and "n < 134" and "300 < y p" and "player.speed p = 5"
    and "list_all (\<lambda>b. \<not> isPlayerBullet b) bs"
  shows "updateGame inp (gs, \<lparr>player = p, enemies = wave n, bullets = bs, stars = sky n\<rparr>) =
     (snd (snd (collide (p\<lparr>y := y p - 5\<rparr>)
                  (enemyShooting (rnd inp) 0 (wave (Suc n)) (map updateBullet bs))
                  (wave (Suc n)) gs)),
      \<lparr>player = p\<lparr>y := y p - 5\<rparr>, enemies = wave (Suc n),
       bullets = filter active (fst (collide (p\<lparr>y := y p - 5\<rparr>)
                  (enemyShooting (rnd inp) 0 (wave (Suc n)) (map updateBullet bs))
                  (wave (Suc n)) gs)),
       stars = sky (Suc n)\<rparr>)"
proof -
  define bs1 where "bs1 = enemyShooting (rnd inp) 0 (wave (Suc n)) (map updateBullet bs)"
  define p1 where "p1 = p\<lparr>y := y p - 5\<rparr>"
  from assms(4) have st: "updateStars (rnd inp) 0 (sky n) = (sky (Suc n), 0)"
    by (simp add: sky_step)
  from assms(3,5,6) have mp: "movePlayer (keys inp) p = p1"
    by (simp add: movePlayer_def p1_def)
  from assms(3) have hs: "handleShooting (keys inp) (now inp) p1 bs = (p1, bs)"
    by (simp add: handleShooting_def)
  from assms(4) have ue: "updateEnemies (wave n) = wave (Suc n)" by (rule wave_step)
  have adv: "advance inp \<lparr>player = p, enemies = wave n, bullets = bs, stars = sky n\<rparr> =
      \<lparr>player = p1, enemies = wave (Suc n), bullets = bs1, stars = sky (Suc n)\<rparr>"
    by (simp add: advance_def st mp hs ue bs1_def Let_def)
  from assms(7) have "list_all (\<lambda>b. \<not> isPlayerBullet b) bs1"
    unfolding bs1_def by (rule list_all_enemyShooting)
  then have es: "fst (snd (collide p1 bs1 (wave (Suc n)) gs)) = wave (Suc n)"
    by (simp add: collide_enemies shoot_enemy_bullets map_idI)
  from assms(5) have "270 < y p1" by (simp add: p1_def)
  then have lc: "lossCheck (wave (Suc n)) p1 g = g" for g by (rule lossCheck_wave)
  have ne: "filter active (wave (Suc n)) \<noteq> []"
    using length_wave [of "Suc n"] by (auto simp add: active_wave)
  from assms(1,2) show ?thesis
    unfolding bs1_def [symmetric] p1_def [symmetric]
    by (simp add: updateGame_def collisions_def adv Let_def split_def es lc ne)
qed


lemmas trace_defs = climb_def climbUnderFire_def initialGameState_def initialPlayer_def
  enemyShooting_wave wave_45 random_def enemyBullet_def updateBullet_def overlaps_def
  hitPlayer_def Let_def

lemma run_append: "run (evs @ evs') c = run evs' (run evs c)"
  by (simp add: run_def)

lemma run_replicate:
  "run (replicate (numeral k) ev) c = run (replicate (pred_numeral k) ev) (step ev c)"
  by (simp add: numeral_eq_Suc run_Cons)

lemma run_replicate_0: "run (replicate 0 ev) c = c"
  by (simp add: run_Nil)

lemma fatal_session:
  "fst (run fatalTrace (mount (\<lambda>k. 0))) =
     \<lparr>score = 0, level = 1, lives = - 1, gameOver = True, paused = False\<rparr>"
  by (simp add: fatalTrace_def run_append run_replicate run_replicate_0 run_Cons run_Nil mount_0 climb_frame trace_defs)

text \<open>The session \<open>fatalTrace\<close> from the mounted state: the bullets fired in frames 1 and
  2 reach the climbing player together in frame 35 (lives 3 to 1), those of frames 3 and 4
  together in frame 36 (lives 1 to -1).\<close>

theorem C3_lives_negative:
  "reachable (run fatalTrace (mount (\<lambda>k. 0))) \<and>
   lives (fst (run fatalTrace (mount (\<lambda>k. 0)))) = - 1"
  by (simp add: fatal_session reachable_run reachable.intros)

section \<open>One hit for each player bullet\<close>















lemma bullets_updateGame:
  "bullets (snd (updateGame inp (gs, go))) =
     (if gameOver gs \<or> paused gs then bullets go
      else filter active (fst (collide (player (advance inp go)) (bullets (advance inp go))
             (enemies (advance inp go)) gs)))"
  by (simp add: updateGame_def collisions_def Let_def split_def)







lemma score_lossCheck [simp]: "score (lossCheck es p gs) = score gs"
  by (simp add: lossCheck_eq)



text \<open>The collision loop on an array that holds the active player bullet \<open>b\<close>: the
  bullets before \<open>b\<close>, then the inner loop for \<open>b\<close>, then the bullets after it.\<close>

lemma collide_reaches:
  assumes "active b" and "isPlayerBullet b"
  shows "collide p (pre @ b # post) es gs =
     (case collide p pre es gs of (pre', es1, gs1) \<Rightarrow>
        case hitEnemies b es1 gs1 of (b', es2, gs2) \<Rightarrow>
          case collide p post es2 gs2 of (post', es3, gs3) \<Rightarrow>
            (pre' @ b' # post', es3, gs3))"
  using assms by (simp add: collide_append split_def Let_def)



section \<open>Two shots on one enemy, in a session\<close>

lemma wave_member:
  assumes "e \<in> set (wave m)"
  obtains r c where "r < 5" "c < 10"
    "e = \<lparr>x = 100 + of_nat c * 60 + of_nat m, y = 50 + of_nat r * 50, width = 25, height = 20,
          active = True, enemy.speed = 1, direction = 1\<rparr>"
  using assms by (auto simp add: wave_def initEnemies_def newEnemy_def)

lemma free_column:
  assumes "inColumn m b" and "e \<in> set (wave m)"
  shows "\<not> hits b e"
proof -
  from assms(2) obtain r c where rc: "r < 5" "c < 10"
    and e: "e = \<lparr>x = 100 + of_nat c * 60 + of_nat m, y = 50 + of_nat r * 50, width = 25,
          height = 20, active = True, enemy.speed = 1, direction = 1\<rparr>"
    by (rule wave_member)
  from rc(1) have "r \<le> 4" by simp
  then have "(of_nat r :: rat) \<le> of_nat 4" by (simp only: of_nat_le_iff)
  then have r4: "(of_nat r :: rat) \<le> 4" by simp
  from assms(1) have b: "x b = 413" "width b = 4" "height b = 10"
    and pos: "270 \<le> y b \<or> (17 \<le> m \<and> m \<le> 48)"
    by (simp_all add: inColumn_def)
  from pos show ?thesis
  proof
    assume "270 \<le> y b"
    with r4 show ?thesis by (simp add: hits_def overlaps_def e)
  next
    assume m: "17 \<le> m \<and> m \<le> 48"
    then have "(of_nat 17 :: rat) \<le> of_nat m" "(of_nat m :: rat) \<le> of_nat 48"
      by (simp_all only: of_nat_le_iff)
    then have m': "(17 :: rat) \<le> of_nat m" "(of_nat m :: rat) \<le> 48" by simp_all
    show ?thesis
    proof (cases "c \<le> 4")
      case True
      then have "(of_nat c :: rat) \<le> of_nat 4" by (simp only: of_nat_le_iff)
      then have "(of_nat c :: rat) \<le> 4" by simp
      with m' b show ?thesis by (simp add: hits_def overlaps_def e)
    next
      case False
      then have "5 \<le> c" by simp
      then have "(of_nat 5 :: rat) \<le> of_nat c" by (simp only: of_nat_le_iff)
      then have "(5 :: rat) \<le> of_nat c" by simp
      with m' b show ?thesis by (simp add: hits_def overlaps_def e)
    qed
  qed
qed

lemma collide_no_hit:
  assumes "\<forall>b \<in> set bs. isPlayerBullet b \<and> (\<forall>e \<in> set es. \<not> hits b e)"
  shows "collide p bs es gs = (bs, es, gs)"
  using assms
proof (induction bs)
  case Nil
  show ?case by simp
next
  case (Cons b bs)
  then have pb: "isPlayerBullet b" and nh: "\<forall>e \<in> set es. \<not> hits b e"
    and rest: "collide p bs es gs = (bs, es, gs)" by simp_all
  from nh have 1: "map (\<lambda>e. if hits b e then destroy e else e) es = es"
    by (simp add: map_idI)
  from nh have 2: "filter (hits b) es = []" by (simp add: filter_empty_conv)
  from nh have 3: "\<not> list_ex (hits b) es" by (simp add: list_ex_iff)
  show ?case
  proof (cases "active b")
    case True
    with pb show ?thesis
      by (simp add: collide_player 1 2 3 rest del: collide.simps)
  next
    case False
    then show ?thesis
      by (simp add: collide_inactive rest del: collide.simps)
  qed
qed

lemma advance_wave:
  assumes "n < 134"
  shows "advance inp \<lparr>player = p, enemies = wave n, bullets = bs, stars = sky n\<rparr> =
     \<lparr>player = fst (handleShooting (keys inp) (now inp) (movePlayer (keys inp) p) bs),
      enemies = wave (Suc n),
      bullets = enemyShooting (rnd inp) 0 (wave (Suc n))
        (map updateBullet (snd (handleShooting (keys inp) (now inp) (movePlayer (keys inp) p) bs))),
      stars = sky (Suc n)\<rparr>"
  using assms by (simp add: advance_def sky_step wave_step Let_def split_def)

lemma flight_frame:
  assumes "\<not> gameOver gs" and "\<not> paused gs" and "n < 134" and "270 < y p"
    and "keys inp = {} \<or> keys inp = holdFire" and "rnd inp = (\<lambda>k. 1 / 2)"
    and "list_all (inColumn (Suc n))
           (map updateBullet (snd (handleShooting (keys inp) (now inp) p bs)))"
  shows "updateGame inp (gs, \<lparr>player = p, enemies = wave n, bullets = bs, stars = sky n\<rparr>) =
     (gs, \<lparr>player = fst (handleShooting (keys inp) (now inp) p bs), enemies = wave (Suc n),
           bullets = filter active
             (map updateBullet (snd (handleShooting (keys inp) (now inp) p bs))),
           stars = sky (Suc n)\<rparr>)"
proof -
  define p1 where "p1 = fst (handleShooting (keys inp) (now inp) p bs)"
  define bs1 where "bs1 = map updateBullet (snd (handleShooting (keys inp) (now inp) p bs))"
  have "movePlayer {} p = p" "movePlayer holdFire p = p"
    by (simp_all add: movePlayer_def holdFire_def)
  with assms(5) have mp: "movePlayer (keys inp) p = p" by auto
  from assms(6) have es: "enemyShooting (rnd inp) 0 es' bs' = bs'" for es' bs'
    by (simp add: enemyShooting_def random_def)
  from assms(3) have adv: "advance inp \<lparr>player = p, enemies = wave n, bullets = bs, stars = sky n\<rparr> =
      \<lparr>player = p1, enemies = wave (Suc n), bullets = bs1, stars = sky (Suc n)\<rparr>"
    by (simp add: advance_wave mp es p1_def bs1_def)
  have "\<forall>b \<in> set bs1. isPlayerBullet b \<and> (\<forall>e \<in> set (wave (Suc n)). \<not> hits b e)"
  proof (intro ballI conjI)
    fix b assume "b \<in> set bs1"
    moreover from assms(7) have "\<forall>b \<in> set bs1. inColumn (Suc n) b"
      unfolding bs1_def list_all_iff .
    ultimately have ic: "inColumn (Suc n) b" by blast
    then show "isPlayerBullet b" by (simp add: inColumn_def)
    fix e assume "e \<in> set (wave (Suc n))"
    with ic show "\<not> hits b e" by (rule free_column)
  qed
  then have col: "collide p1 bs1 (wave (Suc n)) gs = (bs1, wave (Suc n), gs)"
    by (rule collide_no_hit)
  have "y p1 = y p" by (simp add: p1_def handleShooting_def)
  with assms(4) have lc: "lossCheck (wave (Suc n)) p1 g = g" for g
    by (simp add: lossCheck_wave)
  have ne: "filter active (wave (Suc n)) \<noteq> []"
    using length_wave [of "Suc n"] by (auto simp add: active_wave)
  from assms(1,2) show ?thesis
    unfolding p1_def [symmetric] bs1_def [symmetric]
    by (simp add: updateGame_def collisions_def adv col lc ne Let_def)
qed


lemmas flight_defs = idle_def fire_def fireAgain_def holdFire_def handleShooting_def canShoot_def
  playerBullet_def updateBullet_def inColumn_def initialGameState_def initialPlayer_def Let_def

lemma volley_state:
  "run volleyTrace (mount (\<lambda>k. 0)) =
     (initialGameState,
      \<lparr>player = initialPlayer\<lparr>lastShot := Some 1300\<rparr>, enemies = wave 48,
       bullets = [firstShot\<lparr>y := 262\<rparr>, firstShot\<lparr>y := 270\<rparr>], stars = sky 48\<rparr>)"
  by (simp add: volleyTrace_def run_append run_replicate run_replicate_0 run_Cons run_Nil mount_0
      flight_frame flight_defs firstShot_def)
     (simp add: eval_nat_numeral)


lemma wave_44: "wave n ! 44 = \<lparr>x = 340 + of_nat n, y = 250, width = 25, height = 20,
    active = True, enemy.speed = 1, direction = 1\<rparr>"
proof -
  have "initEnemies ! (4 * 10 + 4) = newEnemy 4 4" by (rule initEnemies_nth) simp_all
  then show ?thesis by (simp add: wave_def length_initEnemies newEnemy_def)
qed

lemma volley_advance:
  "advance idle (snd (run volleyTrace (mount (\<lambda>k. 0)))) =
     \<lparr>player = initialPlayer\<lparr>lastShot := Some 1300\<rparr>, enemies = wave 49,
      bullets = volleyInFlight, stars = sky 49\<rparr>"
  by (simp add: volley_state advance_wave volleyInFlight_def firstShot_def idle_def movePlayer_def
      handleShooting_def updateBullet_def enemyShooting_def random_def initialPlayer_def)

lemma second_shot_blocked:
  assumes "e \<in> set (wave 49)"
  shows "\<not> hits (volleyInFlight ! 1) (shoot (take 1 volleyInFlight) e)"
proof (cases "hits (volleyInFlight ! 0) e")
  case True
  then have "shotBy (take 1 volleyInFlight) e"
    by (simp add: shotBy_def volleyInFlight_def firstShot_def)
  then show ?thesis by (simp add: shoot_def)
next
  case False
  from assms obtain r c where rc: "r < 5" "c < 10"
    and e: "e = \<lparr>x = 100 + of_nat c * 60 + of_nat 49, y = 50 + of_nat r * 50, width = 25,
          height = 20, active = True, enemy.speed = 1, direction = 1\<rparr>"
    by (rule wave_member)
  from rc(1) have "r \<le> 4" by simp
  then have "(of_nat r :: rat) \<le> of_nat 4" by (simp only: of_nat_le_iff)
  then have r4: "(of_nat r :: rat) \<le> 4" by simp
  from False r4 have "\<not> hits (volleyInFlight ! 1) e"
    by (auto simp add: hits_def overlaps_def e volleyInFlight_def firstShot_def)
  moreover from False have "\<not> shotBy (take 1 volleyInFlight) e"
    by (simp add: shotBy_def volleyInFlight_def)
  ultimately show ?thesis by (simp add: shoot_def)
qed

text \<open>In frame 49 of the session \<open>volleyTrace\<close> both bullets are active and overlap the
  active enemy at index 44 when collision detection starts; the second bullet is still
  among the bullets after the frame.\<close>

lemma volley_in_session:
  "reachable (run volleyTrace (mount (\<lambda>k. 0))) \<and>
   bullets (advance idle (snd (run volleyTrace (mount (\<lambda>k. 0))))) = volleyInFlight \<and>
   active (volleyInFlight ! 1) \<and> isPlayerBullet (volleyInFlight ! 1) \<and>
   active (enemies (advance idle (snd (run volleyTrace (mount (\<lambda>k. 0))))) ! 44) \<and>
   overlaps (volleyInFlight ! 1) (enemies (advance idle (snd (run volleyTrace (mount (\<lambda>k. 0))))) ! 44) \<and>
   volleyInFlight ! 1 \<in> set (bullets (snd (updateGame idle (run volleyTrace (mount (\<lambda>k. 0))))))"
proof -
  have r: "reachable (run volleyTrace (mount (\<lambda>k. 0)))"
    by (simp add: reachable_run reachable.intros)
  have "\<not> list_ex (hits (volleyInFlight ! 1)) (map (shoot (take 1 volleyInFlight)) (wave 49))"
    using second_shot_blocked by (simp add: list_ex_iff)
  moreover have l: "1 < length volleyInFlight" by (simp add: volleyInFlight_def)
  moreover have a: "active (volleyInFlight ! 1) \<and> isPlayerBullet (volleyInFlight ! 1)"
    by (simp add: volleyInFlight_def firstShot_def)
  ultimately have "fst (collide p volleyInFlight (wave 49) gs) ! 1 = volleyInFlight ! 1" for p gs
    using collide_nth_bullet [of 1 volleyInFlight p "wave 49" gs] by simp
  moreover have "1 < length (fst (collide p volleyInFlight (wave 49) gs))" for p gs
    using l by (simp add: length_collide_bullets)
  ultimately have "volleyInFlight ! 1 \<in> set (fst (collide p volleyInFlight (wave 49) gs))" for p gs
    by (metis nth_mem)
  with a have s: "volleyInFlight ! 1 \<in>
      set (bullets (snd (updateGame idle (run volleyTrace (mount (\<lambda>k. 0))))))"
    by (simp add: volley_state bullets_updateGame initialGameState_def
        volley_advance [unfolded volley_state, simplified])
  from r s show ?thesis
    by (simp add: volley_advance wave_44 volleyInFlight_def firstShot_def overlaps_def)
qed

section \<open>A bullet that hits, in a session\<close>




end
